theory Spec2Isabelle
  imports Main "HOL-Library.Sublist"
begin

text \<open>
  The repository downloads the access logs of AWS Amplify applications in chunks of days,
  halves a chunk when the API asks for a smaller time range, uploads what it fetched to S3
  and keeps statistics of the run.  It does so twice: in a command-line script
  (local/amplify_logs.py) and in a Lambda function (amplifylogs-logging,
  lambda_function.py).  Both are modelled here as functions over an explicit state; calls
  of the AWS command-line client, the SDK, HTTP and the file system are answered by an
  environment that is a parameter, and are recorded in a trace.  Exceptions are values;
  a computation that may not end returns an option.
\<close>

section \<open>Dates, times and durations\<close>

text \<open>
  The downloader works with Python's \<^verbatim>\<open>datetime\<close> values.  A \<^verbatim>\<open>datetime\<close> is modelled
  by the number of microseconds since \<^verbatim>\<open>datetime.min\<close> (0001-01-01T00:00:00), a
  \<^verbatim>\<open>timedelta\<close> by a number of microseconds, and a \<^verbatim>\<open>date\<close> by its proleptic Gregorian
  ordinal (\<^verbatim>\<open>date.toordinal()\<close>, day 1 is 0001-01-01).  Python's calendar ends with
  9999-12-31; arithmetic that leaves it raises \<^verbatim>\<open>OverflowError\<close>.
\<close>

type_synonym datetime = int
type_synonym timedelta = int
type_synonym date = int

datatype py_error = OverflowError | TypeError | KeyError | IOError

definition us_per_second :: int where
  "us_per_second = 1000000"

definition us_per_day :: int where
  "us_per_day = 86400 * us_per_second"

definition max_ordinal :: date where
  "max_ordinal = 3652059"

definition datetime_max :: datetime where
  "datetime_max = max_ordinal * us_per_day - 1"

definition valid_date :: "date \<Rightarrow> bool" where
  "valid_date d = (1 \<le> d \<and> d \<le> max_ordinal)"

definition valid_datetime :: "datetime \<Rightarrow> bool" where
  "valid_datetime t = (0 \<le> t \<and> t \<le> datetime_max)"

text \<open>\<^verbatim>\<open>timedelta(days=n)\<close>: the constructor refuses more than 999999999 days.\<close>

definition timedelta_days :: "int \<Rightarrow> py_error + timedelta" where
  "timedelta_days n =
     (if \<bar>n\<bar> \<le> 999999999 then Inr (n * us_per_day) else Inl OverflowError)"

text \<open>\<^verbatim>\<open>datetime + timedelta\<close> and \<^verbatim>\<open>datetime - timedelta\<close>.\<close>

definition datetime_add :: "datetime \<Rightarrow> timedelta \<Rightarrow> py_error + datetime" where
  "datetime_add t d =
     (if valid_datetime (t + d) then Inr (t + d) else Inl OverflowError)"

text \<open>
  \<^verbatim>\<open>datetime.combine(d, datetime.min.time())\<close> is midnight of day \<open>d\<close>;
  \<^verbatim>\<open>datetime.combine(d, datetime.max.time().replace(microsecond=0))\<close> is 23:59:59 of it.
\<close>

definition combine_min :: "date \<Rightarrow> datetime" where
  "combine_min d = (d - 1) * us_per_day"

definition combine_max0 :: "date \<Rightarrow> datetime" where
  "combine_max0 d = (d - 1) * us_per_day + 86399 * us_per_second"

text \<open>
  Calendar dates are written year-month-day below; the ordinal is computed as Python's
  \<^verbatim>\<open>_ymd2ord\<close> does.
\<close>

definition is_leap :: "int \<Rightarrow> bool" where
  "is_leap year = (year mod 4 = 0 \<and> (year mod 100 > 0 \<or> year mod 400 = 0))"

definition days_before_year :: "int \<Rightarrow> int" where
  "days_before_year year =
     (let y = year - 1 in y * 365 + y div 4 - y div 100 + y div 400)"

definition days_in_month :: "int \<Rightarrow> nat \<Rightarrow> int" where
  "days_in_month year month =
     (if month = 2 \<and> is_leap year then 29
      else [31, 28, 31, 30, 31, 30, 31, 31, 30, 31, 30, 31] ! (month - 1))"

definition days_before_month :: "int \<Rightarrow> nat \<Rightarrow> int" where
  "days_before_month year month =
     sum_list (map (days_in_month year) [1 ..< month])"

definition ymd2ord :: "int \<Rightarrow> nat \<Rightarrow> int \<Rightarrow> date" where
  "ymd2ord year month day = days_before_year year + days_before_month year month + day"

text \<open>The \<^verbatim>\<open>datetime\<close> with the given calendar date and wall-clock time, for examples.\<close>

definition mk_datetime :: "int \<Rightarrow> nat \<Rightarrow> int \<Rightarrow> int \<Rightarrow> int \<Rightarrow> int \<Rightarrow> datetime" where
  "mk_datetime year month day hh mm ss =
     (ymd2ord year month day - 1) * us_per_day + (hh * 3600 + mm * 60 + ss) * us_per_second"


section \<open>RangeGenerator: \<^verbatim>\<open>generate_time_ranges\<close>\<close>

text \<open>
  \<^verbatim>\<open>AmplifyLogDownloader.generate_time_ranges\<close> (local/amplify_logs.py).  The \<^verbatim>\<open>while\<close>
  loop is \<open>generate_loop\<close>; its result is \<open>None\<close> when the loop never ends,
  \<open>Some (Inl e)\<close> when an exception \<open>e\<close> leaves the function and \<open>Some (Inr ranges)\<close>
  when it returns.
\<close>

partial_function (option) generate_loop ::
  "int \<Rightarrow> datetime \<Rightarrow> datetime \<Rightarrow> (datetime \<times> datetime) list
     \<Rightarrow> (py_error + (datetime \<times> datetime) list) option" where
  "generate_loop chunk_size_days end_time current_start ranges =
     (if current_start \<le> end_time then
        (case timedelta_days chunk_size_days of Inl e \<Rightarrow> Some (Inl e) | Inr td \<Rightarrow>
        (case datetime_add current_start td of Inl e \<Rightarrow> Some (Inl e) | Inr t1 \<Rightarrow>
        (case datetime_add t1 (- us_per_second) of Inl e \<Rightarrow> Some (Inl e) | Inr t2 \<Rightarrow>
          (let chunk_end = min t2 end_time in
            (case datetime_add chunk_end us_per_second of Inl e \<Rightarrow> Some (Inl e)
             | Inr next_start \<Rightarrow>
                 generate_loop chunk_size_days end_time next_start
                   (ranges @ [(current_start, chunk_end)]))))))
      else Some (Inr ranges))"

declare generate_loop.simps [code]

definition generate_time_ranges ::
  "int \<Rightarrow> date \<Rightarrow> date \<Rightarrow> (py_error + (datetime \<times> datetime) list) option" where
  "generate_time_ranges chunk_size_days start_date end_date =
     generate_loop chunk_size_days (combine_max0 end_date) (combine_min start_date) []"


section \<open>Bisection of a range\<close>

text \<open>
  \<^verbatim>\<open>process_time_range\<close> of the command-line downloader computes
  \<^verbatim>\<open>mid_time = start_time + (end_time - start_time) // 2\<close> and recurses on
  \<^verbatim>\<open>(start_time, mid_time)\<close> and \<^verbatim>\<open>(mid_time, end_time)\<close>.  \<^verbatim>\<open>//\<close> on a \<^verbatim>\<open>timedelta\<close> is floor
  division of its microseconds.
\<close>

definition mid_time :: "datetime \<Rightarrow> datetime \<Rightarrow> datetime" where
  "mid_time start_time end_time = start_time + (end_time - start_time) div 2"

definition split_range ::
  "datetime \<Rightarrow> datetime \<Rightarrow> (datetime \<times> datetime) \<times> (datetime \<times> datetime)" where
  "split_range start_time end_time =
     ((start_time, mid_time start_time end_time), (mid_time start_time end_time, end_time))"

text \<open>
  \<^verbatim>\<open>handle_large_time_range\<close> of the Lambda function computes
  \<^verbatim>\<open>mid_time = start_time + time_diff / 2\<close>: true division of a \<^verbatim>\<open>timedelta\<close> rounds the
  microseconds to the nearest integer, ties to even (\<^verbatim>\<open>_divide_and_round\<close>).
\<close>

definition divide_and_round :: "int \<Rightarrow> int \<Rightarrow> int" where
  "divide_and_round a b =
     (let q = a div b; r = 2 * (a mod b);
          greater_than_half = (if b > 0 then r > b else r < b)
      in if greater_than_half \<or> (r = b \<and> q mod 2 = 1) then q + 1 else q)"

definition lambda_mid_time :: "datetime \<Rightarrow> datetime \<Rightarrow> datetime" where
  "lambda_mid_time start_time end_time =
     start_time + divide_and_round (end_time - start_time) 2"

definition lambda_split_range ::
  "datetime \<Rightarrow> datetime \<Rightarrow> (datetime \<times> datetime) \<times> (datetime \<times> datetime)" where
  "lambda_split_range start_time end_time =
     ((start_time, lambda_mid_time start_time end_time),
      (lambda_mid_time start_time end_time, end_time))"


section \<open>The command-line downloader (local/amplify_logs.py)\<close>

subsection \<open>Values, primitives and the trace of external calls\<close>

text \<open>
  Python values as far as the downloader sees them: what \<^verbatim>\<open>json.loads\<close> returns, the
  text of a log file, \<^verbatim>\<open>None\<close>.  A number is kept as its literal; the code never looks
  into one.  A dictionary is the list of its items, in order; its keys are distinct.
\<close>

datatype pyval =
    PNone
  | PBool bool
  | PNum string
  | PStr string
  | PList "pyval list"
  | PDict "(string \<times> pyval) list"

text \<open>\<^verbatim>\<open>key in v\<close> for a string \<open>key\<close>, and \<^verbatim>\<open>v[key]\<close>.\<close>

fun py_contains :: "string \<Rightarrow> pyval \<Rightarrow> py_error + bool" where
  "py_contains key (PDict kvs) = Inr (key \<in> set (map fst kvs))"
| "py_contains key (PList xs) = Inr (PStr key \<in> set xs)"
| "py_contains key (PStr s) = Inr (sublist key s)"
| "py_contains key v = Inl TypeError"

fun py_getitem :: "pyval \<Rightarrow> string \<Rightarrow> py_error + pyval" where
  "py_getitem (PDict kvs) key =
     (case map_of kvs key of Some v \<Rightarrow> Inr v | None \<Rightarrow> Inl KeyError)"
| "py_getitem v key = Inl TypeError"

text \<open>
  The application the downloader is started for (\<^verbatim>\<open>app_config\<close> of \<^verbatim>\<open>main\<close>).
\<close>

record app_config =
  profile :: string
  region :: string
  appId :: string
  domainName :: string
  appName :: string

text \<open>
  A local log file and its S3 destination.  Both names are built from a fixed directory or
  bucket, the application's name and \<^verbatim>\<open>timestamp.strftime\<close> with the formats \<^verbatim>\<open>%Y-%m-%d\<close>
  and \<^verbatim>\<open>%Y%m%d_%H%M%S\<close>: they are determined by these two strings and the timestamp's whole
  seconds, which is how they are kept here.  \<^verbatim>\<open>isoformat(timespec='seconds')\<close> likewise
  drops the microseconds.
\<close>

definition whole_seconds :: "datetime \<Rightarrow> int" where
  "whole_seconds t = t div us_per_second"

datatype path = LogFile string string int

datatype s3_uri = S3Uri string string int

definition FIXED_OUTPUT_DIR :: string where
  "FIXED_OUTPUT_DIR = ''/home/hylmarj/_scratch''"

definition S3_PROFILE :: string where
  "S3_PROFILE = ''HylmarJ''"

definition S3_BUCKET :: string where
  "S3_BUCKET = ''amplifylogs-logging-intite-ss1-inftes-182059100462''"

definition log_file_path :: "app_config \<Rightarrow> datetime \<Rightarrow> path" where
  "log_file_path app timestamp =
     LogFile FIXED_OUTPUT_DIR (appName app) (whole_seconds timestamp)"

definition s3_uri_of :: "app_config \<Rightarrow> datetime \<Rightarrow> s3_uri" where
  "s3_uri_of app timestamp = S3Uri S3_BUCKET (appName app) (whole_seconds timestamp)"

text \<open>
  The two commands handed to \<^verbatim>\<open>subprocess.run\<close>:
  \<^verbatim>\<open>aws amplify generate-access-logs\<close> with the application and the two times, and
  \<^verbatim>\<open>aws s3 cp\<close> with the file, the destination and the profile.
\<close>

datatype command =
    GenerateAccessLogs app_config int int
  | S3Cp path s3_uri string

text \<open>
  What \<^verbatim>\<open>subprocess.run(..., check=True)\<close> does: it returns with the standard output,
  raises \<^verbatim>\<open>CalledProcessError\<close> carrying the standard error, or raises something else.
  What \<^verbatim>\<open>requests.get\<close> does: it returns a response (status code and text) or raises.
\<close>

datatype proc_result = Completed string | CalledProcessError string | RunFailed

datatype http_result = Response int string | RequestFailed

text \<open>What is written to a file: a string as it is, any other value by \<^verbatim>\<open>json.dump\<close>.\<close>

datatype content = Text string | JsonDump pyval

text \<open>
  Every call that leaves the program is recorded, in order, in a trace.  The behaviour of
  the outside world is a record of functions from the trace so far and the request to
  the outcome, so that any sequence of outcomes can be described (the first call fails
  and the second succeeds, say).  \<open>write_file\<close> stands for the directory creation,
  \<^verbatim>\<open>open\<close>, the write and the size query of \<^verbatim>\<open>save_logs_locally\<close>: \<open>False\<close> when one of
  them raises.  Log messages are not part of the model.
\<close>

datatype event =
    Run command
  | Get pyval
  | WriteFile path content
  | Remove path
  | Sleep nat

record env =
  subprocess_run :: "event list \<Rightarrow> command \<Rightarrow> proc_result"
  json_loads :: "string \<Rightarrow> pyval option"
  requests_get :: "event list \<Rightarrow> pyval \<Rightarrow> http_result"
  write_file :: "event list \<Rightarrow> path \<Rightarrow> content \<Rightarrow> bool"

subsection \<open>Statistics and the downloader's state\<close>

text \<open>
  \<^verbatim>\<open>self.stats\<close> and the per-call \<^verbatim>\<open>app_stats\<close> of \<^verbatim>\<open>download_logs\<close>.  An entry of
  \<^verbatim>\<open>self.stats['failed_ranges']\<close> holds the application's name and the two times, an entry
  of \<^verbatim>\<open>app_stats['failed_ranges']\<close> the two times.
\<close>

record stats =
  total_chunks :: nat
  successful_chunks :: nat
  failed_chunks :: nat
  empty_logs_chunks :: nat
  upload_failures :: nat
  failed_ranges :: "(string \<times> datetime \<times> datetime) list"

record app_stats =
  app_name :: string
  app_total_chunks :: nat
  app_successful_chunks :: nat
  app_empty_logs_chunks :: nat
  app_failed_chunks :: nat
  app_failed_ranges :: "(datetime \<times> datetime) list"

record state =
  self_stats :: stats
  trace :: "event list"

text \<open>\<^verbatim>\<open>__init__\<close>: all counters are zero, nothing has happened yet.\<close>

definition init_stats :: stats where
  "init_stats = \<lparr>total_chunks = 0, successful_chunks = 0, failed_chunks = 0,
     empty_logs_chunks = 0, upload_failures = 0, failed_ranges = []\<rparr>"

definition init_state :: state where
  "init_state = \<lparr>self_stats = init_stats, trace = []\<rparr>"

definition record_event :: "event \<Rightarrow> state \<Rightarrow> state" where
  "record_event ev st = st\<lparr>trace := trace st @ [ev]\<rparr>"

definition count_upload_failure :: "state \<Rightarrow> state" where
  "count_upload_failure st =
     st\<lparr>self_stats := (self_stats st)\<lparr>upload_failures := upload_failures (self_stats st) + 1\<rparr>\<rparr>"

subsection \<open>\<^verbatim>\<open>get_amplify_logs\<close>\<close>

text \<open>
  The result is a string (the log text, the signal \<^verbatim>\<open>"REDUCE_RANGE"\<close>), the parsed
  response when it holds no \<^verbatim>\<open>logUrl\<close>, or \<^verbatim>\<open>None\<close>.  Every exception raised inside ends in
  one of the three handlers, which return \<^verbatim>\<open>None\<close> unless the command's standard error
  contains \<^verbatim>\<open>reduce time range\<close>.
\<close>

definition REDUCE_RANGE :: pyval where
  "REDUCE_RANGE = PStr ''REDUCE_RANGE''"

definition get_amplify_logs ::
  "env \<Rightarrow> app_config \<Rightarrow> datetime \<Rightarrow> datetime \<Rightarrow> state \<Rightarrow> pyval \<times> state" where
  "get_amplify_logs env app start_time end_time st =
     (let command = GenerateAccessLogs app (whole_seconds start_time) (whole_seconds end_time);
          result = subprocess_run env (trace st) command;
          st1 = record_event (Run command) st
      in case result of
           CalledProcessError stderr \<Rightarrow>
             if sublist ''reduce time range'' stderr then (REDUCE_RANGE, st1) else (PNone, st1)
         | RunFailed \<Rightarrow> (PNone, st1)
         | Completed stdout \<Rightarrow>
             if stdout \<noteq> [] then
               (case json_loads env stdout of
                  None \<Rightarrow> (PNone, st1)
                | Some response \<Rightarrow>
                    (case py_contains ''logUrl'' response of
                       Inl e \<Rightarrow> (PNone, st1)
                     | Inr has_url \<Rightarrow>
                         if has_url then
                           (case py_getitem response ''logUrl'' of
                              Inl e \<Rightarrow> (PNone, st1)
                            | Inr log_url \<Rightarrow>
                                (let log_content = requests_get env (trace st1) log_url;
                                     st2 = record_event (Get log_url) st1
                                 in case log_content of
                                      RequestFailed \<Rightarrow> (PNone, st2)
                                    | Response status_code text \<Rightarrow>
                                        if status_code = 200 then (PStr text, st2)
                                        else (PNone, st2)))
                         else (response, st1)))
             else (PNone, st1))"

subsection \<open>\<^verbatim>\<open>save_logs_locally\<close> and \<^verbatim>\<open>upload_to_s3\<close>\<close>

text \<open>
  \<^verbatim>\<open>save_logs_locally\<close> returns \<^verbatim>\<open>None\<close> for the empty string, the path of the file it
  wrote otherwise; an exception while writing is logged and raised again.
\<close>

definition is_empty_logs :: "pyval \<Rightarrow> bool" where
  "is_empty_logs logs = (case logs of PStr s \<Rightarrow> s = [] | _ \<Rightarrow> False)"

definition save_logs_locally ::
  "env \<Rightarrow> app_config \<Rightarrow> pyval \<Rightarrow> datetime \<Rightarrow> state \<Rightarrow> (py_error + path option) \<times> state" where
  "save_logs_locally env app logs timestamp st =
     (if is_empty_logs logs then (Inr None, st)
      else
        (let log_file = log_file_path app timestamp;
             data = (case logs of PStr s \<Rightarrow> Text s | _ \<Rightarrow> JsonDump logs);
             written = write_file env (trace st) log_file data;
             st1 = record_event (WriteFile log_file data) st
         in if written then (Inr (Some log_file), st1) else (Inl IOError, st1)))"

text \<open>
  \<^verbatim>\<open>upload_to_s3\<close> returns \<^verbatim>\<open>True\<close> when the copy command succeeded; both exception handlers
  count an upload failure and return \<^verbatim>\<open>False\<close>.  A failure to delete the local file is
  only logged.
\<close>

definition upload_to_s3 ::
  "env \<Rightarrow> app_config \<Rightarrow> path \<Rightarrow> datetime \<Rightarrow> bool \<Rightarrow> state \<Rightarrow> bool \<times> state" where
  "upload_to_s3 env app local_file timestamp delete_after_upload st =
     (let command = S3Cp local_file (s3_uri_of app timestamp) S3_PROFILE;
          result = subprocess_run env (trace st) command;
          st1 = record_event (Run command) st
      in case result of
           Completed stdout \<Rightarrow>
             if delete_after_upload then (True, record_event (Remove local_file) st1)
             else (True, st1)
         | CalledProcessError stderr \<Rightarrow> (False, count_upload_failure st1)
         | RunFailed \<Rightarrow> (False, count_upload_failure st1))"

subsection \<open>\<^verbatim>\<open>process_time_range\<close>\<close>

text \<open>
  The result is the pair \<^verbatim>\<open>(success, is_empty_logs)\<close>.  The only exception that can reach
  the \<^verbatim>\<open>except\<close> clause is the one \<^verbatim>\<open>save_logs_locally\<close> raises again: the result is then
  \<^verbatim>\<open>(False, False)\<close>.
\<close>

function process_time_range ::
  "env \<Rightarrow> app_config \<Rightarrow> datetime \<Rightarrow> datetime \<Rightarrow> nat \<Rightarrow> bool \<Rightarrow> state
     \<Rightarrow> (bool \<times> bool) \<times> state" where
  "process_time_range env app start_time end_time depth delete_after_upload st =
     (if depth > 2 then ((False, False), st)
      else
        (let (logs, st1) = get_amplify_logs env app start_time end_time st in
         if logs = REDUCE_RANGE then
           (let (first_half, second_half) = split_range start_time end_time;
                ((success1, empty1), st2) =
                   process_time_range env app (fst first_half) (snd first_half) (depth + 1)
                     delete_after_upload st1;
                st3 = record_event (Sleep 1) st2;
                ((success2, empty2), st4) =
                   process_time_range env app (fst second_half) (snd second_half) (depth + 1)
                     delete_after_upload st3
            in ((success1 \<or> success2, empty1 \<and> empty2), st4))
         else if logs \<noteq> PNone then
           (if is_empty_logs logs then ((True, True), st1)
            else
              (case save_logs_locally env app logs end_time st1 of
                 (Inl e, st2) \<Rightarrow> ((False, False), st2)
               | (Inr None, st2) \<Rightarrow> ((True, False), st2)
               | (Inr (Some local_file), st2) \<Rightarrow>
                   (let (s3_success, st3) =
                          upload_to_s3 env app local_file end_time delete_after_upload st2
                    in ((s3_success, False), st3))))
         else ((False, False), st1)))"
  by pat_completeness auto
termination
  by (relation "measure (\<lambda>(env, app, start_time, end_time, depth, dau, st). 3 - depth)") auto

declare process_time_range.simps [simp del]

subsection \<open>\<^verbatim>\<open>download_logs\<close>\<close>

text \<open>
  One pass of the \<^verbatim>\<open>for\<close> loop over the chunks is \<open>chunk_step\<close>; the loop itself is
  \<open>chunk_loop\<close>.
\<close>

definition chunk_step ::
  "env \<Rightarrow> app_config \<Rightarrow> bool \<Rightarrow> datetime \<times> datetime \<Rightarrow> app_stats \<times> state
     \<Rightarrow> app_stats \<times> state" where
  "chunk_step env app delete_after_upload chunk acc =
     (let (start_time, end_time) = chunk;
          (app_stats, st) = acc;
          ((success, is_empty), st1) =
             process_time_range env app start_time end_time 0 delete_after_upload st;
          s = self_stats st1;
          (app_stats1, s1) =
            (if success then
               (let a1 = app_stats\<lparr>app_successful_chunks := app_successful_chunks app_stats + 1\<rparr>;
                    s1 = s\<lparr>successful_chunks := successful_chunks s + 1\<rparr>
                in if is_empty then
                     (a1\<lparr>app_empty_logs_chunks := app_empty_logs_chunks a1 + 1\<rparr>,
                      s1\<lparr>empty_logs_chunks := empty_logs_chunks s1 + 1\<rparr>)
                   else (a1, s1))
             else
               (app_stats\<lparr>app_failed_chunks := app_failed_chunks app_stats + 1,
                   app_failed_ranges := app_failed_ranges app_stats @ [(start_time, end_time)]\<rparr>,
                s\<lparr>failed_chunks := failed_chunks s + 1,
                   failed_ranges := failed_ranges s @ [(appName app, start_time, end_time)]\<rparr>))
      in (app_stats1, record_event (Sleep 1) (st1\<lparr>self_stats := s1\<rparr>)))"

primrec chunk_loop ::
  "env \<Rightarrow> app_config \<Rightarrow> bool \<Rightarrow> (datetime \<times> datetime) list \<Rightarrow> app_stats \<times> state
     \<Rightarrow> app_stats \<times> state" where
  "chunk_loop env app delete_after_upload [] acc = acc"
| "chunk_loop env app delete_after_upload (chunk # time_ranges) acc =
     chunk_loop env app delete_after_upload time_ranges
       (chunk_step env app delete_after_upload chunk acc)"

text \<open>
  The downloader object: its application and chunk size; its statistics are in the
  state.  \<^verbatim>\<open>download_logs\<close> returns the dictionary with \<^verbatim>\<open>overall_stats\<close> and \<^verbatim>\<open>app_stats\<close>.
\<close>

record downloader =
  self_app :: app_config
  self_chunk_size_days :: int

record report =
  overall_stats :: stats
  report_app_stats :: app_stats

definition fresh_app_stats :: "app_config \<Rightarrow> nat \<Rightarrow> app_stats" where
  "fresh_app_stats a n = \<lparr>app_name = appName a, app_total_chunks = n,
     app_successful_chunks = 0, app_empty_logs_chunks = 0, app_failed_chunks = 0,
     app_failed_ranges = []\<rparr>"

definition set_total_chunks :: "nat \<Rightarrow> state \<Rightarrow> state" where
  "set_total_chunks n st = st\<lparr>self_stats := (self_stats st)\<lparr>total_chunks := n\<rparr>\<rparr>"

definition download_logs ::
  "env \<Rightarrow> downloader \<Rightarrow> date \<Rightarrow> date \<Rightarrow> bool \<Rightarrow> state
     \<Rightarrow> (py_error + report \<times> state) option" where
  "download_logs env self start_date end_date delete_after_upload st =
     (case generate_time_ranges (self_chunk_size_days self) start_date end_date of
        None \<Rightarrow> None
      | Some (Inl e) \<Rightarrow> Some (Inl e)
      | Some (Inr time_ranges) \<Rightarrow>
          (let (app_stats, st1) =
                 chunk_loop env (self_app self) delete_after_upload time_ranges
                   (fresh_app_stats (self_app self) (length time_ranges),
                    set_total_chunks (length time_ranges) st)
           in Some (Inr (\<lparr>overall_stats = self_stats st1, report_app_stats = app_stats\<rparr>, st1))))"

section \<open>The Lambda function (amplifylogs-logging, lambda_function.py)\<close>

text \<open>
  \<^verbatim>\<open>download_amplify_logs\<close> and \<^verbatim>\<open>handle_large_time_range\<close> call each other.  The event's
  application has a region, an id, a domain and a name.
\<close>

record lambda_app =
  lam_region :: string
  lam_appId :: string
  lam_domainName :: string
  lam_appName :: string

text \<open>
  The output directory is named after the application and the day of \<^verbatim>\<open>start_time\<close>, the
  log file in it after \<^verbatim>\<open>start_time\<close>'s whole seconds; both live under \<^verbatim>\<open>temp_dir\<close>.  The
  file holds the downloaded text, or a one-line note when the response has no \<^verbatim>\<open>logUrl\<close>.
\<close>

datatype lambda_path =
    OutputDir string string int
  | LambdaLogFile string string int

datatype lambda_content = LogText string | NoLogsNote string datetime datetime

text \<open>
  What \<^verbatim>\<open>amplify_client.generate_access_logs\<close> does: it returns a response dictionary,
  raises \<^verbatim>\<open>BadRequestException\<close> with a message, raises \<^verbatim>\<open>ResourceNotFoundException\<close>, or
  raises something else.
\<close>

datatype api_result =
    ApiResponse "(string \<times> pyval) list"
  | BadRequestException string
  | ResourceNotFoundException
  | ApiFailed

datatype lambda_event =
    MakeDirs lambda_path
  | CreateClient string
  | CallApi lambda_app int int
  | HttpGet pyval
  | WriteLog lambda_path lambda_content
  | Wait nat

text \<open>
  The outside world of the Lambda function, again as functions of the trace so far; the
  Boolean results are \<open>False\<close> when the call raises.
\<close>

record lambda_env =
  os_makedirs :: "lambda_event list \<Rightarrow> lambda_path \<Rightarrow> bool"
  boto3_client :: "lambda_event list \<Rightarrow> string \<Rightarrow> bool"
  generate_access_logs :: "lambda_event list \<Rightarrow> lambda_app \<Rightarrow> int \<Rightarrow> int \<Rightarrow> api_result"
  http_get :: "lambda_event list \<Rightarrow> pyval \<Rightarrow> http_result"
  write_log :: "lambda_event list \<Rightarrow> lambda_path \<Rightarrow> lambda_content \<Rightarrow> bool"

text \<open>
  The test \<^verbatim>\<open>"reduce time range" in str(e) or "Too many records" in str(e)\<close>.
\<close>

definition too_many_records :: "string \<Rightarrow> bool" where
  "too_many_records msg =
     (sublist ''reduce time range'' msg \<or> sublist ''Too many records'' msg)"

text \<open>
  The two functions as one recursion over the call that is made: the entry of
  \<^verbatim>\<open>download_amplify_logs\<close> (directory and client, whose exceptions the outer handler turns
  into the empty list), one pass of its \<^verbatim>\<open>for retry in range(max_retries)\<close> loop, and
  \<^verbatim>\<open>handle_large_time_range\<close>.  The result is \<open>None\<close> when the call never returns.  Inside
  the loop \<open>retry < max_retries\<close> holds, so \<open>max_retries - 1\<close> is the subtraction of the
  source.
\<close>

datatype lambda_call =
    DownloadAmplifyLogs datetime datetime nat nat
  | RetryLoop datetime datetime nat nat nat
  | HandleLargeTimeRange datetime datetime nat nat

partial_function (option) lambda_run ::
  "lambda_env \<Rightarrow> lambda_app \<Rightarrow> string \<Rightarrow> lambda_call \<Rightarrow> lambda_event list
     \<Rightarrow> (lambda_path list \<times> lambda_event list) option" where
  "lambda_run env app temp_dir call tr =
     (case call of
        DownloadAmplifyLogs start_time end_time max_retries retry_delay \<Rightarrow>
          (let output_dir = OutputDir temp_dir (lam_appName app) (start_time div us_per_day);
               tr1 = tr @ [MakeDirs output_dir];
               tr2 = tr1 @ [CreateClient (lam_region app)]
           in if \<not> os_makedirs env tr output_dir then Some ([], tr1)
              else if \<not> boto3_client env tr1 (lam_region app) then Some ([], tr2)
              else lambda_run env app temp_dir
                     (RetryLoop start_time end_time max_retries retry_delay 0) tr2)
      | RetryLoop start_time end_time max_retries retry_delay retry \<Rightarrow>
          (if retry < max_retries then
             (let log_file_path =
                    LambdaLogFile temp_dir (lam_appName app) (whole_seconds start_time);
                  tr1 = tr @ [CallApi app (whole_seconds start_time) (whole_seconds end_time)]
              in case generate_access_logs env tr app
                        (whole_seconds start_time) (whole_seconds end_time) of
                   ApiResponse response \<Rightarrow>
                     (case map_of response ''logUrl'' of
                        Some log_url \<Rightarrow>
                          (let tr2 = tr1 @ [HttpGet log_url] in
                           case http_get env tr1 log_url of
                             Response status_code text \<Rightarrow>
                               if status_code = 200 then
                                 (let tr3 = tr2 @ [WriteLog log_file_path (LogText text)] in
                                  if write_log env tr2 log_file_path (LogText text)
                                  then Some ([log_file_path], tr3)
                                  else if retry < max_retries - 1
                                  then lambda_run env app temp_dir
                                         (RetryLoop start_time end_time max_retries retry_delay
                                            (retry + 1))
                                         (tr3 @ [Wait (retry_delay * 2 ^ retry)])
                                  else Some ([], tr3))
                               else if retry < max_retries - 1
                               then lambda_run env app temp_dir
                                      (RetryLoop start_time end_time max_retries retry_delay
                                         (retry + 1))
                                      (tr2 @ [Wait (retry_delay * 2 ^ retry)])
                               else Some ([], tr2)
                           | RequestFailed \<Rightarrow>
                               if retry < max_retries - 1
                               then lambda_run env app temp_dir
                                      (RetryLoop start_time end_time max_retries retry_delay
                                         (retry + 1))
                                      (tr2 @ [Wait (retry_delay * 2 ^ retry)])
                               else Some ([], tr2))
                      | None \<Rightarrow>
                          (let note = NoLogsNote (lam_appName app) start_time end_time;
                               tr2 = tr1 @ [WriteLog log_file_path note]
                           in if write_log env tr1 log_file_path note
                              then Some ([log_file_path], tr2)
                              else if retry < max_retries - 1
                              then lambda_run env app temp_dir
                                     (RetryLoop start_time end_time max_retries retry_delay
                                        (retry + 1))
                                     (tr2 @ [Wait (retry_delay * 2 ^ retry)])
                              else Some ([], tr2)))
                 | BadRequestException msg \<Rightarrow>
                     if too_many_records msg
                     then lambda_run env app temp_dir
                            (HandleLargeTimeRange start_time end_time 0 3) tr1
                     else if retry < max_retries - 1
                     then lambda_run env app temp_dir
                            (RetryLoop start_time end_time max_retries retry_delay (retry + 1))
                            (tr1 @ [Wait (retry_delay * 2 ^ retry)])
                     else Some ([], tr1)
                 | ResourceNotFoundException \<Rightarrow> Some ([], tr1)
                 | ApiFailed \<Rightarrow>
                     if retry < max_retries - 1
                     then lambda_run env app temp_dir
                            (RetryLoop start_time end_time max_retries retry_delay (retry + 1))
                            (tr1 @ [Wait (retry_delay * 2 ^ retry)])
                     else Some ([], tr1))
           else Some ([], tr))
      | HandleLargeTimeRange start_time end_time depth max_depth \<Rightarrow>
          (if depth \<ge> max_depth then Some ([], tr)
           else
             (let (first, second) = lambda_split_range start_time end_time in
              Option.bind
                (lambda_run env app temp_dir (DownloadAmplifyLogs (fst first) (snd first) 3 2) tr)
                (\<lambda>(first_half, tr1).
                   Option.bind
                     (lambda_run env app temp_dir
                        (DownloadAmplifyLogs (fst second) (snd second) 3 2) (tr1 @ [Wait 1]))
                     (\<lambda>(second_half, tr2). Some (first_half @ second_half, tr2))))))"

declare lambda_run.simps [code]

definition download_amplify_logs ::
  "lambda_env \<Rightarrow> lambda_app \<Rightarrow> datetime \<Rightarrow> datetime \<Rightarrow> string \<Rightarrow> lambda_event list
     \<Rightarrow> (lambda_path list \<times> lambda_event list) option" where
  "download_amplify_logs env app start_time end_time temp_dir tr =
     lambda_run env app temp_dir (DownloadAmplifyLogs start_time end_time 3 2) tr"

definition handle_large_time_range ::
  "lambda_env \<Rightarrow> lambda_app \<Rightarrow> datetime \<Rightarrow> datetime \<Rightarrow> string \<Rightarrow> nat \<Rightarrow> lambda_event list
     \<Rightarrow> (lambda_path list \<times> lambda_event list) option" where
  "handle_large_time_range env app start_time end_time temp_dir depth tr =
     lambda_run env app temp_dir (HandleLargeTimeRange start_time end_time depth 3) tr"

section \<open>Notions used in the statements\<close>

text \<open>
  The chunks \<^verbatim>\<open>generate_time_ranges\<close> appends from \<open>cur\<close> on: each starts where the loop
  stands, ends \<open>c\<close> days minus one second later or at \<open>e\<close>, and the next one starts one
  second after it.
\<close>

fun chunk_chain :: "int \<Rightarrow> datetime \<Rightarrow> datetime \<Rightarrow> (datetime \<times> datetime) list \<Rightarrow> bool" where
  "chunk_chain c e cur [] = (e < cur)"
| "chunk_chain c e cur (r # rs) =
     (fst r = cur \<and> cur \<le> e \<and> snd r = min (cur + c * us_per_day - us_per_second) e
      \<and> chunk_chain c e (snd r + us_per_second) rs)"

text \<open>A range is the closed interval between its two times, as the chunks are.\<close>

definition in_range :: "datetime \<Rightarrow> datetime \<times> datetime \<Rightarrow> bool" where
  "in_range t r = (fst r \<le> t \<and> t \<le> snd r)"

text \<open>\<^verbatim>\<open>isinstance(v, str)\<close>.\<close>

fun is_str :: "pyval \<Rightarrow> bool" where
  "is_str (PStr s) = True"
| "is_str v = False"

text \<open>
  The counters of \<^verbatim>\<open>self.stats\<close> that only \<^verbatim>\<open>download_logs\<close> writes, and the relation between
  a state and a later one in which only the trace has grown and upload failures have been
  counted.
\<close>

definition counters ::
  "stats \<Rightarrow> nat \<times> nat \<times> nat \<times> nat \<times> (string \<times> datetime \<times> datetime) list" where
  "counters s = (total_chunks s, successful_chunks s, failed_chunks s, empty_logs_chunks s,
     failed_ranges s)"

definition later_state :: "state \<Rightarrow> state \<Rightarrow> bool" where
  "later_state st st' = (prefix (trace st) (trace st')
     \<and> counters (self_stats st') = counters (self_stats st)
     \<and> upload_failures (self_stats st) \<le> upload_failures (self_stats st'))"

text \<open>
  The counters are consistent after \<open>n\<close> chunks: every chunk is counted as successful or
  failed, every failed chunk has its entry in the list, and the chunks with empty logs
  are among the successful ones.
\<close>

definition stats_ok :: "nat \<Rightarrow> stats \<Rightarrow> bool" where
  "stats_ok n s = (successful_chunks s + failed_chunks s = n
     \<and> length (failed_ranges s) = failed_chunks s
     \<and> empty_logs_chunks s \<le> successful_chunks s)"

definition app_stats_ok :: "nat \<Rightarrow> app_stats \<Rightarrow> bool" where
  "app_stats_ok n a = (app_successful_chunks a + app_failed_chunks a = n
     \<and> length (app_failed_ranges a) = app_failed_chunks a
     \<and> app_empty_logs_chunks a \<le> app_successful_chunks a)"

text \<open>The fetch event of a chunk.\<close>

definition fetch_of :: "app_config \<Rightarrow> datetime \<times> datetime \<Rightarrow> event" where
  "fetch_of a r = Run (GenerateAccessLogs a (whole_seconds (fst r)) (whole_seconds (snd r)))"

section \<open>Kinds of events and scripted environments\<close>

text \<open>
  A fetch is a run of \<^verbatim>\<open>aws amplify generate-access-logs\<close>; a persist call is a write of a
  local log file or a run of \<^verbatim>\<open>aws s3 cp\<close>.
\<close>

fun is_fetch :: "event \<Rightarrow> bool" where
  "is_fetch (Run (GenerateAccessLogs a s e)) = True"
| "is_fetch ev = False"

fun is_persist :: "event \<Rightarrow> bool" where
  "is_persist (WriteFile f data) = True"
| "is_persist (Run (S3Cp f uri p)) = True"
| "is_persist ev = False"

fun is_sleep :: "event \<Rightarrow> bool" where
  "is_sleep (Sleep n) = True"
| "is_sleep ev = False"

text \<open>
  An environment for examples: the \<open>n\<close>-th fetch of the run ends as \<open>fetch n\<close> says
  (counting from 0), every upload as \<open>upload\<close>, \<^verbatim>\<open>json.loads\<close> returns \<open>parsed\<close>, every
  download \<open>page\<close>, and files can be written when \<open>writable\<close>.
\<close>

definition scripted_env ::
  "(nat \<Rightarrow> proc_result) \<Rightarrow> proc_result \<Rightarrow> pyval option \<Rightarrow> http_result \<Rightarrow> bool \<Rightarrow> env" where
  "scripted_env fetch upload parsed page writable =
     \<lparr>subprocess_run = (\<lambda>tr command. case command of
          GenerateAccessLogs a s e \<Rightarrow> fetch (length (filter is_fetch tr))
        | S3Cp f uri p \<Rightarrow> upload),
      json_loads = (\<lambda>stdout. parsed),
      requests_get = (\<lambda>tr url. page),
      write_file = (\<lambda>tr f data. writable)\<rparr>"

text \<open>The application and the downloader of the script's usage example.\<close>

definition example_app :: app_config where
  "example_app = \<lparr>profile = ''JiHy__vsb__299'', region = ''eu-central-1'',
     appId = ''d3f9qt4fnd0v'', domainName = ''booking.classicskischool.cz'',
     appName = ''booking_classicskischool_cz''\<rparr>"

definition example_downloader :: downloader where
  "example_downloader = \<lparr>self_app = example_app, self_chunk_size_days = 14\<rparr>"

definition url_response :: pyval where
  "url_response = PDict [(''logUrl'', PStr ''https://logs.example/access.csv'')]"

text \<open>
  The first fetch is told to reduce the time range, the second one succeeds, every later
  one fails; downloads, writes and uploads succeed.
\<close>

definition env_second_half_fails :: env where
  "env_second_half_fails =
     scripted_env
       (\<lambda>n. if n = 0 then CalledProcessError ''Too many records: please reduce time range''
            else if n = 1 then Completed ''{logUrl}''
            else CalledProcessError ''Could not connect to the endpoint URL'')
       (Completed ''upload: done'') (Some url_response)
       (Response 200 ''GET /index.html 200'') True"

text \<open>Every fetch and download succeeds with a log line; every upload is refused.\<close>

definition env_upload_refused :: env where
  "env_upload_refused =
     scripted_env (\<lambda>n. Completed ''{logUrl}'') (CalledProcessError ''AccessDenied'')
       (Some url_response) (Response 200 ''GET /index.html 200'') True"

text \<open>Every fetch succeeds and the downloaded log is the empty string.\<close>

definition env_empty_logs :: env where
  "env_empty_logs =
     scripted_env (\<lambda>n. Completed ''{logUrl}'') (Completed ''upload: done'')
       (Some url_response) (Response 200 '''') True"

text \<open>Every fetch returns a response without \<^verbatim>\<open>logUrl\<close>.\<close>

definition env_no_url :: env where
  "env_no_url =
     scripted_env (\<lambda>n. Completed ''{message}'') (Completed ''upload: done'')
       (Some (PDict [(''message'', PStr ''no logs'')])) RequestFailed True"

text \<open>Every call raises.\<close>

definition env_all_raise :: env where
  "env_all_raise = scripted_env (\<lambda>n. RunFailed) RunFailed None RequestFailed False"

text \<open>Every fetch fails with an error that does not ask for a smaller range.\<close>

definition env_unreachable :: env where
  "env_unreachable =
     scripted_env (\<lambda>n. CalledProcessError ''Could not connect to the endpoint URL'')
       (Completed ''upload: done'') None RequestFailed True"

text \<open>Every fetch is told to reduce the time range.\<close>

definition env_always_reduce :: env where
  "env_always_reduce =
     scripted_env (\<lambda>n. CalledProcessError ''Too many records: please reduce time range'')
       (Completed ''upload: done'') None RequestFailed True"

section \<open>The Lambda function: kinds of events, attempts and example environments\<close>

fun is_api_call :: "lambda_event \<Rightarrow> bool" where
  "is_api_call (CallApi a s e) = True"
| "is_api_call ev = False"

fun is_wait :: "lambda_event \<Rightarrow> bool" where
  "is_wait (Wait n) = True"
| "is_wait ev = False"

text \<open>
  An attempt on a range ends in a transient failure when the API call raises an exception
  other than \<^verbatim>\<open>ResourceNotFoundException\<close> and other than a \<^verbatim>\<open>BadRequestException\<close> that asks
  for a smaller range, or when the download of the log raises or returns a status other
  than 200.
\<close>

definition transient_attempt ::
  "lambda_env \<Rightarrow> lambda_app \<Rightarrow> datetime \<Rightarrow> datetime \<Rightarrow> lambda_event list \<Rightarrow> bool" where
  "transient_attempt env a s e tr =
     (case generate_access_logs env tr a (whole_seconds s) (whole_seconds e) of
        ApiFailed \<Rightarrow> True
      | BadRequestException msg \<Rightarrow> \<not> too_many_records msg
      | ResourceNotFoundException \<Rightarrow> False
      | ApiResponse response \<Rightarrow>
          (case map_of response ''logUrl'' of
             None \<Rightarrow> False
           | Some log_url \<Rightarrow>
               (case http_get env
                       (tr @ [CallApi a (whole_seconds s) (whole_seconds e)]) log_url of
                  RequestFailed \<Rightarrow> True
                | Response status_code text \<Rightarrow> status_code \<noteq> 200)))"

text \<open>Which calls of the recursion return at once, whatever the outside world does.\<close>

fun returns_at_once :: "lambda_call \<Rightarrow> bool" where
  "returns_at_once (DownloadAmplifyLogs s e max_retries retry_delay) = (max_retries = 0)"
| "returns_at_once (RetryLoop s e max_retries retry_delay retry) = (max_retries \<le> retry)"
| "returns_at_once (HandleLargeTimeRange s e depth max_depth) = (max_depth \<le> depth)"

definition example_lambda_app :: lambda_app where
  "example_lambda_app = \<lparr>lam_region = ''eu-west-1'', lam_appId = ''d3hgg9jtwyuijn'',
     lam_domainName = ''danse.tech'', lam_appName = ''danse_tech''\<rparr>"

text \<open>The API answers every request with the demand for a smaller range.\<close>

definition lambda_env_always_too_large :: lambda_env where
  "lambda_env_always_too_large =
     \<lparr>os_makedirs = (\<lambda>tr d. True), boto3_client = (\<lambda>tr r. True),
      generate_access_logs =
        (\<lambda>tr a s e. BadRequestException ''Too many records: please reduce time range''),
      http_get = (\<lambda>tr url. RequestFailed), write_log = (\<lambda>tr f data. True)\<rparr>"

text \<open>Every API call raises a connection error.\<close>

definition lambda_env_unreachable :: lambda_env where
  "lambda_env_unreachable =
     \<lparr>os_makedirs = (\<lambda>tr d. True), boto3_client = (\<lambda>tr r. True),
      generate_access_logs = (\<lambda>tr a s e. ApiFailed),
      http_get = (\<lambda>tr url. RequestFailed), write_log = (\<lambda>tr f data. True)\<rparr>"

section \<open>RangeGenerator: the partition\<close>

lemma whole_second_next:
  assumes "us_per_second dvd a" "us_per_second dvd t" "a < t"
  shows "a + us_per_second \<le> t"
proof -
  from assms(1,2) obtain k m where km: "a = us_per_second * k" "t = us_per_second * m"
    by (auto elim!: dvdE)
  with assms(3) have "k < m" by (simp add: us_per_second_def)
  then have "k + 1 \<le> m" by simp
  then have "us_per_second * (k + 1) \<le> us_per_second * m"
    by (simp add: us_per_second_def)
  with km show ?thesis by (simp add: algebra_simps)
qed

lemma generate_loop_exit:
  "end_time < current_start \<Longrightarrow>
     generate_loop c end_time current_start ranges = Some (Inr ranges)"
  by (subst generate_loop.simps) simp

text \<open>One pass of the loop when no date leaves the calendar.\<close>

lemma generate_loop_step:
  assumes "current_start \<le> end_time" "1 \<le> c" "0 \<le> current_start"
    and "end_time + c * us_per_day \<le> datetime_max"
  shows "generate_loop c end_time current_start ranges =
         generate_loop c end_time
           (min (current_start + c * us_per_day - us_per_second) end_time + us_per_second)
           (ranges @
             [(current_start, min (current_start + c * us_per_day - us_per_second) end_time)])"
proof -
  have c: "\<bar>c\<bar> \<le> 999999999"
    using assms by (simp add: us_per_day_def us_per_second_def datetime_max_def max_ordinal_def)
  have a1: "valid_datetime (current_start + c * us_per_day)"
    using assms by (simp add: valid_datetime_def us_per_day_def us_per_second_def)
  have a2: "valid_datetime (current_start + c * us_per_day - us_per_second)"
    using assms by (simp add: valid_datetime_def us_per_day_def us_per_second_def)
  have a3: "valid_datetime
      (min (current_start + c * us_per_day - us_per_second) end_time + us_per_second)"
    using assms by (simp add: valid_datetime_def us_per_day_def us_per_second_def min_def)
  show ?thesis
    using assms(1) c a1 a2 a3
    by (subst generate_loop.simps) (simp add: timedelta_days_def datetime_add_def Let_def)
qed

text \<open>
  The loop ends: the distance from \<open>cur\<close> to the end shrinks with every pass, because a
  chunk of at least one day moves \<open>cur\<close> forward.
\<close>

lemma generate_loop_total:
  assumes "1 \<le> c" "0 \<le> cur" "e + c * us_per_day \<le> datetime_max"
  shows "\<exists>rs. generate_loop c e cur acc = Some (Inr (acc @ rs)) \<and> chunk_chain c e cur rs"
  using assms
proof (induction "nat (e + 1 - cur)" arbitrary: cur acc rule: less_induct)
  case less
  show ?case
  proof (cases "cur \<le> e")
    case False
    then have "generate_loop c e cur acc = Some (Inr (acc @ []))" "chunk_chain c e cur []"
      by (simp_all add: generate_loop_exit)
    then show ?thesis by blast
  next
    case True
    define b where "b = min (cur + c * us_per_day - us_per_second) e"
    have gt: "cur < b + us_per_second"
      using True less.prems by (simp add: b_def us_per_day_def us_per_second_def min_def)
    have step: "generate_loop c e cur acc =
        generate_loop c e (b + us_per_second) (acc @ [(cur, b)])"
      unfolding b_def using True less.prems by (rule generate_loop_step)
    have "nat (e + 1 - (b + us_per_second)) < nat (e + 1 - cur)"
      using gt True by simp
    moreover have "0 \<le> b + us_per_second" using gt less.prems by simp
    ultimately obtain rs where
      rs: "generate_loop c e (b + us_per_second) (acc @ [(cur, b)]) =
             Some (Inr ((acc @ [(cur, b)]) @ rs))"
        "chunk_chain c e (b + us_per_second) rs"
      using less.hyps[of "b + us_per_second" "acc @ [(cur, b)]"] less.prems by blast
    have "generate_loop c e cur acc = Some (Inr (acc @ ((cur, b) # rs)))"
      using step rs(1) by simp
    moreover have "chunk_chain c e cur ((cur, b) # rs)"
      using rs(2) True by (simp add: b_def)
    ultimately show ?thesis by blast
  qed
qed

lemma chain_ConsD:
  assumes "chunk_chain c e cur (r # rs)"
  shows "fst r = cur" "cur \<le> e" "snd r = min (cur + c * us_per_day - us_per_second) e"
    "chunk_chain c e (snd r + us_per_second) rs"
  using assms unfolding chunk_chain.simps by blast+

lemma chain_bounds:
  "chunk_chain c e cur rs \<Longrightarrow> 1 \<le> c \<Longrightarrow>
     \<forall>r \<in> set rs. cur \<le> fst r \<and> fst r \<le> snd r \<and> snd r \<le> e"
proof (induction rs arbitrary: cur)
  case Nil
  then show ?case by simp
next
  case (Cons r rs)
  note r = chain_ConsD(1-3)[OF Cons.prems(1)] and ch = chain_ConsD(4)[OF Cons.prems(1)]
  have le: "cur \<le> snd r"
    using r Cons.prems(2) by (simp add: us_per_day_def us_per_second_def min_def)
  have "\<forall>r' \<in> set rs. snd r + us_per_second \<le> fst r' \<and> fst r' \<le> snd r' \<and> snd r' \<le> e"
    using Cons.IH[OF ch Cons.prems(2)] .
  then have "\<forall>r' \<in> set rs. cur \<le> fst r' \<and> fst r' \<le> snd r' \<and> snd r' \<le> e"
    using le by (auto simp: us_per_second_def)
  then show ?case using r le by simp
qed

lemma chain_sorted:
  "chunk_chain c e cur rs \<Longrightarrow> 1 \<le> c \<Longrightarrow> sorted_wrt (\<lambda>r r'. snd r < fst r') rs"
proof (induction rs arbitrary: cur)
  case Nil
  then show ?case by simp
next
  case (Cons r rs)
  note ch = chain_ConsD(4)[OF Cons.prems(1)]
  have "\<forall>r' \<in> set rs. snd r + us_per_second \<le> fst r'"
    using chain_bounds[OF ch Cons.prems(2)] by blast
  then have "\<forall>r' \<in> set rs. snd r < fst r'"
    by (auto simp: us_per_second_def)
  then show ?case using Cons.IH[OF ch Cons.prems(2)] by simp
qed

lemma chain_successively:
  "chunk_chain c e cur rs \<Longrightarrow> successively (\<lambda>r r'. fst r' = snd r + us_per_second) rs"
proof (induction rs arbitrary: cur)
  case Nil
  then show ?case by simp
next
  case (Cons r rs)
  then show ?case by (cases rs) auto
qed

lemma chain_butlast:
  "chunk_chain c e cur rs \<Longrightarrow>
     \<forall>r \<in> set (butlast rs). snd r = fst r + c * us_per_day - us_per_second"
proof (induction rs arbitrary: cur)
  case Nil
  then show ?case by simp
next
  case (Cons r rs)
  show ?case
  proof (cases rs)
    case Nil
    then show ?thesis by simp
  next
    case (Cons r' rs')
    note r = chain_ConsD(1-3)[OF Cons.prems(1)] and ch = chain_ConsD(4)[OF Cons.prems(1)]
    from ch Cons have "snd r + us_per_second \<le> e"
      using chain_ConsD(2) by blast
    with r have "snd r = fst r + c * us_per_day - us_per_second"
      by (simp add: min_def us_per_second_def split: if_splits)
    then show ?thesis using Cons.IH[OF ch] Cons by simp
  qed
qed

lemma chain_hd:
  "chunk_chain c e cur rs \<Longrightarrow> cur \<le> e \<Longrightarrow> rs \<noteq> [] \<and> fst (hd rs) = cur"
  by (cases rs) auto

lemma chain_last:
  "chunk_chain c e cur rs \<Longrightarrow> rs \<noteq> [] \<Longrightarrow> us_per_second dvd cur \<Longrightarrow> us_per_second dvd e
     \<Longrightarrow> snd (last rs) = e"
proof (induction rs arbitrary: cur)
  case Nil
  then show ?case by simp
next
  case (Cons r rs)
  note r = chain_ConsD(3)[OF Cons.prems(1)] and ch = chain_ConsD(4)[OF Cons.prems(1)]
  have dv: "us_per_second dvd snd r + us_per_second"
    using r Cons.prems(3,4) by (simp add: min_def us_per_day_def)
  show ?case
  proof (cases rs)
    case Nil
    with ch have "e < snd r + us_per_second" by simp
    moreover have "snd r \<le> e" using r by simp
    moreover have "us_per_second dvd snd r" using dv by simp
    ultimately have "snd r = e"
      using whole_second_next[of "snd r" e] Cons.prems(4) by fastforce
    with Nil show ?thesis by simp
  next
    case (Cons r' rs')
    then have "rs \<noteq> []" by simp
    from Cons.IH[OF ch this dv Cons.prems(4)] show ?thesis using Cons by simp
  qed
qed

lemma chain_cover:
  "chunk_chain c e cur rs \<Longrightarrow> us_per_second dvd cur \<Longrightarrow> us_per_second dvd e \<Longrightarrow>
   cur \<le> t \<Longrightarrow> t \<le> e \<Longrightarrow> us_per_second dvd t \<Longrightarrow> \<exists>r \<in> set rs. in_range t r"
proof (induction rs arbitrary: cur)
  case Nil
  then show ?case by simp
next
  case (Cons r rs)
  note r = chain_ConsD(1,3)[OF Cons.prems(1)] and ch = chain_ConsD(4)[OF Cons.prems(1)]
  have dv: "us_per_second dvd snd r + us_per_second"
    using r(2) Cons.prems(2,3) by (simp add: min_def us_per_day_def)
  show ?case
  proof (cases "t \<le> snd r")
    case True
    with r Cons.prems show ?thesis by (simp add: in_range_def)
  next
    case False
    have "us_per_second dvd snd r" using dv by simp
    with False Cons.prems(6) have "snd r + us_per_second \<le> t"
      using whole_second_next[of "snd r" t] by simp
    from Cons.IH[OF ch dv Cons.prems(3) this Cons.prems(5,6)] show ?thesis by auto
  qed
qed

text \<open>
  With a chunk size of zero days the loop appends the range that ends one second before
  it starts and stays where it is: it never returns.
\<close>

lemma generate_loop_zero_chunk_diverges:
  assumes "generate_loop c e cur acc = Some y"
  shows "\<not> (c = 0 \<and> us_per_second \<le> cur \<and> cur \<le> e \<and> e \<le> datetime_max)"
proof (rule generate_loop.raw_induct
    [where P = "\<lambda>c e cur acc y.
        \<not> (c = 0 \<and> us_per_second \<le> cur \<and> cur \<le> e \<and> e \<le> datetime_max)",
      OF _ assms])
  fix f :: "int \<Rightarrow> datetime \<Rightarrow> datetime \<Rightarrow> (datetime \<times> datetime) list
      \<Rightarrow> (py_error + (datetime \<times> datetime) list) option"
  fix c e cur acc y
  assume IH: "\<And>c e cur acc y. f c e cur acc = Some y \<Longrightarrow>
      \<not> (c = 0 \<and> us_per_second \<le> cur \<and> cur \<le> e \<and> e \<le> datetime_max)"
  assume body: "(if cur \<le> e then
        (case timedelta_days c of Inl e \<Rightarrow> Some (Inl e) | Inr td \<Rightarrow>
        (case datetime_add cur td of Inl e \<Rightarrow> Some (Inl e) | Inr t1 \<Rightarrow>
        (case datetime_add t1 (- us_per_second) of Inl e \<Rightarrow> Some (Inl e) | Inr t2 \<Rightarrow>
          (let chunk_end = min t2 e in
            (case datetime_add chunk_end us_per_second of Inl e \<Rightarrow> Some (Inl e)
             | Inr next_start \<Rightarrow> f c e next_start (acc @ [(cur, chunk_end)]))))))
      else Some (Inr acc)) = Some y"
  show "\<not> (c = 0 \<and> us_per_second \<le> cur \<and> cur \<le> e \<and> e \<le> datetime_max)"
  proof
    assume inv: "c = 0 \<and> us_per_second \<le> cur \<and> cur \<le> e \<and> e \<le> datetime_max"
    then have "f c e cur (acc @ [(cur, cur - us_per_second)]) = Some y"
      using body
      by (simp add: timedelta_days_def datetime_add_def valid_datetime_def us_per_second_def
          Let_def min_def)
    from IH[OF this] inv show False by blast
  qed
qed

lemma ymd_examples:
  "ymd2ord 2024 1 1 = 738886" "ymd2ord 2024 1 31 = 738916"
  "ymd2ord 2025 2 1 = 739283" "ymd2ord 2025 3 23 = 739333"
  by (simp_all add: ymd2ord_def days_before_year_def days_before_month_def days_in_month_def
      is_leap_def upt_rec)

lemmas calendar_defs =
  mk_datetime_def ymd2ord_def days_before_year_def days_before_month_def days_in_month_def
  is_leap_def upt_rec combine_max0_def combine_min_def timedelta_days_def datetime_add_def
  valid_datetime_def valid_date_def datetime_max_def max_ordinal_def us_per_day_def
  us_per_second_def

text \<open>
  C6 (the claim as stated fails).  \<^verbatim>\<open>--chunk-size-days 0\<close> with the dates 2024-01-01 and
  2024-01-31 makes \<^verbatim>\<open>generate_time_ranges\<close> loop without end (the list grows until the
  memory is used up), and a range that ends on 9999-12-31 makes it raise
  \<^verbatim>\<open>OverflowError\<close>: in both cases it returns no ranges although the start is not after the
  end.
\<close>

theorem generate_time_ranges_counterexample:
  "generate_time_ranges 0 (ymd2ord 2024 1 1) (ymd2ord 2024 1 31) = None
   \<and> generate_time_ranges 14 (ymd2ord 9999 12 18) (ymd2ord 9999 12 31)
       = Some (Inl OverflowError)"
proof
  have "\<not> (\<exists>y. generate_loop 0 (combine_max0 738916) (combine_min 738886) [] = Some y)"
  proof
    assume "\<exists>y. generate_loop 0 (combine_max0 738916) (combine_min 738886) [] = Some y"
    then obtain y where
      "generate_loop 0 (combine_max0 738916) (combine_min 738886) [] = Some y" ..
    from generate_loop_zero_chunk_diverges[OF this] show False
      by (simp add: combine_max0_def combine_min_def us_per_day_def us_per_second_def
          datetime_max_def max_ordinal_def)
  qed
  then show "generate_time_ranges 0 (ymd2ord 2024 1 1) (ymd2ord 2024 1 31) = None"
    unfolding generate_time_ranges_def ymd_examples by simp
next
  show "generate_time_ranges 14 (ymd2ord 9999 12 18) (ymd2ord 9999 12 31)
      = Some (Inl OverflowError)"
    by (simp add: generate_time_ranges_def generate_loop.simps calendar_defs)
qed

lemma generate_time_ranges_general:
  assumes "1 \<le> c" "valid_date s" "valid_date e" "s \<le> e" "e + c \<le> max_ordinal"
  shows "\<exists>rs. generate_time_ranges c s e = Some (Inr rs)
           \<and> rs \<noteq> [] \<and> fst (hd rs) = combine_min s \<and> snd (last rs) = combine_max0 e
           \<and> (\<forall>r \<in> set rs. fst r \<le> snd r)
           \<and> sorted_wrt (\<lambda>r r'. snd r < fst r') rs
           \<and> successively (\<lambda>r r'. fst r' = snd r + us_per_second) rs
           \<and> (\<forall>r \<in> set (butlast rs). snd r + us_per_second - fst r = c * us_per_day)
           \<and> (\<forall>t. combine_min s \<le> t \<and> t \<le> combine_max0 e \<and> us_per_second dvd t
                  \<longrightarrow> (\<exists>r \<in> set rs. in_range t r))"
proof -
  let ?a = "combine_min s" and ?b = "combine_max0 e"
  have a0: "0 \<le> ?a"
    using assms(2) by (simp add: combine_min_def valid_date_def us_per_day_def us_per_second_def)
  have ab: "?a \<le> ?b" using assms(4)
    by (simp add: combine_min_def combine_max0_def us_per_day_def us_per_second_def)
  have mx: "?b + c * us_per_day \<le> datetime_max" using assms(5)
    by (simp add: combine_max0_def datetime_max_def us_per_day_def us_per_second_def)
  have da: "us_per_second dvd ?a" by (simp add: combine_min_def us_per_day_def)
  have db: "us_per_second dvd ?b" by (simp add: combine_max0_def us_per_day_def)
  from generate_loop_total[OF assms(1) a0 mx, of "[]"] obtain rs where
    rs: "generate_loop c ?b ?a [] = Some (Inr rs)" and ch: "chunk_chain c ?b ?a rs"
    by auto
  have ne: "rs \<noteq> []" "fst (hd rs) = ?a" using chain_hd[OF ch ab] by simp_all
  have "generate_time_ranges c s e = Some (Inr rs)"
    using rs by (simp add: generate_time_ranges_def)
  moreover have "snd (last rs) = ?b" by (rule chain_last[OF ch ne(1) da db])
  moreover have "\<forall>r \<in> set rs. fst r \<le> snd r" using chain_bounds[OF ch assms(1)] by blast
  moreover have "sorted_wrt (\<lambda>r r'. snd r < fst r') rs" by (rule chain_sorted[OF ch assms(1)])
  moreover have "successively (\<lambda>r r'. fst r' = snd r + us_per_second) rs"
    by (rule chain_successively[OF ch])
  moreover have "\<forall>r \<in> set (butlast rs). snd r + us_per_second - fst r = c * us_per_day"
    using chain_butlast[OF ch] by simp
  moreover have "\<forall>t. ?a \<le> t \<and> t \<le> ?b \<and> us_per_second dvd t
                  \<longrightarrow> (\<exists>r \<in> set rs. in_range t r)"
    using chain_cover[OF ch da db] by blast
  ultimately show ?thesis using ne by blast
qed

lemma generate_time_ranges_scenario:
  "generate_time_ranges 14 (ymd2ord 2024 1 1) (ymd2ord 2024 1 31) =
     Some (Inr [(mk_datetime 2024 1 1 0 0 0, mk_datetime 2024 1 14 23 59 59),
                (mk_datetime 2024 1 15 0 0 0, mk_datetime 2024 1 28 23 59 59),
                (mk_datetime 2024 1 29 0 0 0, mk_datetime 2024 1 31 23 59 59)])"
  by (simp add: generate_time_ranges_def generate_loop.simps calendar_defs)

text \<open>
  C6 (amended).  For a chunk size of at least one day and dates \<open>s \<le> e\<close> of the calendar
  with \<open>e\<close> at least a chunk before 9999-12-31, \<^verbatim>\<open>generate_time_ranges\<close> returns a non-empty
  list of ranges: the first starts at midnight of \<open>s\<close>, the last ends at 23:59:59 of
  \<open>e\<close>, every range starts no later than it ends, every range ends before any later one
  starts (chronological order, no overlap), each range starts exactly one second after
  its predecessor ends, every range but the last spans exactly the chunk size, and every
  whole second between the first start and the last end lies in one of the ranges (no
  gaps).  For 2024-01-01, 2024-01-31 and 14 days the result is the three ranges
  01-01..01-14, 01-15..01-28 and 01-29..01-31.
\<close>

theorem generate_time_ranges_partition:
  "(\<forall>c s e. 1 \<le> c \<and> valid_date s \<and> valid_date e \<and> s \<le> e \<and> e + c \<le> max_ordinal \<longrightarrow>
      (\<exists>rs. generate_time_ranges c s e = Some (Inr rs)
           \<and> rs \<noteq> [] \<and> fst (hd rs) = combine_min s \<and> snd (last rs) = combine_max0 e
           \<and> (\<forall>r \<in> set rs. fst r \<le> snd r)
           \<and> sorted_wrt (\<lambda>r r'. snd r < fst r') rs
           \<and> successively (\<lambda>r r'. fst r' = snd r + us_per_second) rs
           \<and> (\<forall>r \<in> set (butlast rs). snd r + us_per_second - fst r = c * us_per_day)
           \<and> (\<forall>t. combine_min s \<le> t \<and> t \<le> combine_max0 e \<and> us_per_second dvd t
                  \<longrightarrow> (\<exists>r \<in> set rs. in_range t r))))
   \<and> generate_time_ranges 14 (ymd2ord 2024 1 1) (ymd2ord 2024 1 31) =
       Some (Inr [(mk_datetime 2024 1 1 0 0 0, mk_datetime 2024 1 14 23 59 59),
                  (mk_datetime 2024 1 15 0 0 0, mk_datetime 2024 1 28 23 59 59),
                  (mk_datetime 2024 1 29 0 0 0, mk_datetime 2024 1 31 23 59 59)])"
  using generate_time_ranges_general generate_time_ranges_scenario by blast

text \<open>
  The theorem at the dates of the script's usage example, 2025-02-01 to 2025-03-23 in
  chunks of 14 days.
\<close>

theorem generate_time_ranges_partition_witness:
  "\<exists>rs. generate_time_ranges 14 (ymd2ord 2025 2 1) (ymd2ord 2025 3 23) = Some (Inr rs)
      \<and> rs \<noteq> [] \<and> fst (hd rs) = combine_min (ymd2ord 2025 2 1)
      \<and> snd (last rs) = combine_max0 (ymd2ord 2025 3 23)
      \<and> (\<forall>r \<in> set rs. fst r \<le> snd r)
      \<and> sorted_wrt (\<lambda>r r'. snd r < fst r') rs
      \<and> successively (\<lambda>r r'. fst r' = snd r + us_per_second) rs
      \<and> (\<forall>r \<in> set (butlast rs). snd r + us_per_second - fst r = 14 * us_per_day)
      \<and> (\<forall>t. combine_min (ymd2ord 2025 2 1) \<le> t \<and> t \<le> combine_max0 (ymd2ord 2025 3 23)
               \<and> us_per_second dvd t \<longrightarrow> (\<exists>r \<in> set rs. in_range t r))"
proof -
  have "1 \<le> (14::int) \<and> valid_date (ymd2ord 2025 2 1) \<and> valid_date (ymd2ord 2025 3 23)
      \<and> ymd2ord 2025 2 1 \<le> ymd2ord 2025 3 23 \<and> ymd2ord 2025 3 23 + 14 \<le> max_ordinal"
    unfolding ymd_examples by (simp add: valid_date_def max_ordinal_def)
  with generate_time_ranges_partition show ?thesis by blast
qed

section \<open>Bisection of a range\<close>

lemma divide_and_round_2:
  "0 \<le> d \<Longrightarrow> 0 \<le> divide_and_round d 2 \<and> divide_and_round d 2 \<le> d"
proof -
  assume "0 \<le> d"
  then have "0 \<le> d div 2" "d div 2 \<le> d" by simp_all
  moreover have "d div 2 + 1 \<le> d" if "d div 2 mod 2 = 1"
  proof -
    from that have "d div 2 \<noteq> 0" by auto
    with \<open>0 \<le> d div 2\<close> have "1 \<le> d div 2" by simp
    then show ?thesis by simp
  qed
  ultimately show ?thesis by (auto simp: divide_and_round_def Let_def)
qed

lemma mid_time_between:
  "start_time \<le> end_time \<Longrightarrow>
     start_time \<le> mid_time start_time end_time \<and> mid_time start_time end_time \<le> end_time"
  by (auto simp: mid_time_def)

lemma lambda_mid_time_between:
  "start_time \<le> end_time \<Longrightarrow>
     start_time \<le> lambda_mid_time start_time end_time
     \<and> lambda_mid_time start_time end_time \<le> end_time"
  using divide_and_round_2[of "end_time - start_time"] by (auto simp: lambda_mid_time_def)

text \<open>
  C5 (the claim as stated fails).  The ten seconds from midnight of 2024-01-01 are split
  into the ranges 00:00:00 to 00:00:05 and 00:00:05 to 00:00:10, by the command-line
  downloader and by the Lambda function alike: the second half starts at the midpoint
  itself, not after it, and the instant 00:00:05 lies in both halves.
\<close>

theorem bisection_counterexample:
  "split_range (mk_datetime 2024 1 1 0 0 0) (mk_datetime 2024 1 1 0 0 10) =
     ((mk_datetime 2024 1 1 0 0 0, mk_datetime 2024 1 1 0 0 5),
      (mk_datetime 2024 1 1 0 0 5, mk_datetime 2024 1 1 0 0 10))
   \<and> lambda_split_range (mk_datetime 2024 1 1 0 0 0) (mk_datetime 2024 1 1 0 0 10) =
     ((mk_datetime 2024 1 1 0 0 0, mk_datetime 2024 1 1 0 0 5),
      (mk_datetime 2024 1 1 0 0 5, mk_datetime 2024 1 1 0 0 10))
   \<and> in_range (mk_datetime 2024 1 1 0 0 5)
        (fst (split_range (mk_datetime 2024 1 1 0 0 0) (mk_datetime 2024 1 1 0 0 10)))
   \<and> in_range (mk_datetime 2024 1 1 0 0 5)
        (snd (split_range (mk_datetime 2024 1 1 0 0 0) (mk_datetime 2024 1 1 0 0 10)))"
  by (simp add: split_range_def lambda_split_range_def mid_time_def lambda_mid_time_def
      divide_and_round_def in_range_def calendar_defs)

text \<open>
  C5 (amended).  For every range with \<open>start \<le> end\<close>, both bisections yield the halves
  from the start to the midpoint and from the midpoint to the end: the midpoint lies in
  the range, an instant lies in the range exactly when it lies in one of the halves, and
  it lies in both halves exactly when it is the midpoint.
\<close>

theorem bisection_halves_share_midpoint:
  assumes "start_time \<le> end_time"
  shows "(\<exists>mid. split_range start_time end_time = ((start_time, mid), (mid, end_time))
            \<and> in_range mid (start_time, end_time)
            \<and> (\<forall>t. in_range t (start_time, end_time) =
                    (in_range t (start_time, mid) \<or> in_range t (mid, end_time)))
            \<and> (\<forall>t. (in_range t (start_time, mid) \<and> in_range t (mid, end_time)) = (t = mid)))
       \<and> (\<exists>mid. lambda_split_range start_time end_time = ((start_time, mid), (mid, end_time))
            \<and> in_range mid (start_time, end_time)
            \<and> (\<forall>t. in_range t (start_time, end_time) =
                    (in_range t (start_time, mid) \<or> in_range t (mid, end_time)))
            \<and> (\<forall>t. (in_range t (start_time, mid) \<and> in_range t (mid, end_time)) = (t = mid)))"
proof -
  have halves: "in_range mid (start_time, end_time)
      \<and> (\<forall>t. in_range t (start_time, end_time) =
             (in_range t (start_time, mid) \<or> in_range t (mid, end_time)))
      \<and> (\<forall>t. (in_range t (start_time, mid) \<and> in_range t (mid, end_time)) = (t = mid))"
    if "start_time \<le> mid \<and> mid \<le> end_time" for mid
    using that by (auto simp: in_range_def)
  have "split_range start_time end_time =
      ((start_time, mid_time start_time end_time), (mid_time start_time end_time, end_time))"
    by (simp add: split_range_def)
  with halves[OF mid_time_between[OF assms]]
  have local: "\<exists>mid. split_range start_time end_time = ((start_time, mid), (mid, end_time))
            \<and> in_range mid (start_time, end_time)
            \<and> (\<forall>t. in_range t (start_time, end_time) =
                    (in_range t (start_time, mid) \<or> in_range t (mid, end_time)))
            \<and> (\<forall>t. (in_range t (start_time, mid) \<and> in_range t (mid, end_time)) = (t = mid))"
    by blast
  have "lambda_split_range start_time end_time =
      ((start_time, lambda_mid_time start_time end_time),
       (lambda_mid_time start_time end_time, end_time))"
    by (simp add: lambda_split_range_def)
  with halves[OF lambda_mid_time_between[OF assms]]
  have "\<exists>mid. lambda_split_range start_time end_time = ((start_time, mid), (mid, end_time))
            \<and> in_range mid (start_time, end_time)
            \<and> (\<forall>t. in_range t (start_time, end_time) =
                    (in_range t (start_time, mid) \<or> in_range t (mid, end_time)))
            \<and> (\<forall>t. (in_range t (start_time, mid) \<and> in_range t (mid, end_time)) = (t = mid))"
    by blast
  with local show ?thesis by blast
qed

text \<open>The theorem for the ten seconds from midnight of 2024-01-01.\<close>

theorem bisection_halves_share_midpoint_witness:
  "(\<exists>mid. split_range (mk_datetime 2024 1 1 0 0 0) (mk_datetime 2024 1 1 0 0 10) =
            ((mk_datetime 2024 1 1 0 0 0, mid), (mid, mk_datetime 2024 1 1 0 0 10))
        \<and> (\<forall>t. (in_range t (mk_datetime 2024 1 1 0 0 0, mid)
                 \<and> in_range t (mid, mk_datetime 2024 1 1 0 0 10)) = (t = mid)))
   \<and> mk_datetime 2024 1 1 0 0 0 \<le> mk_datetime 2024 1 1 0 0 10"
proof -
  have le: "mk_datetime 2024 1 1 0 0 0 \<le> mk_datetime 2024 1 1 0 0 10"
    by (simp add: calendar_defs)
  from bisection_halves_share_midpoint[OF le] le show ?thesis by blast
qed

section \<open>The command-line downloader: what a call leaves unchanged\<close>

lemma later_state_refl: "later_state st st"
  by (simp add: later_state_def)

lemma later_state_trans: "later_state a b \<Longrightarrow> later_state b c \<Longrightarrow> later_state a c"
  by (auto simp: later_state_def)

lemma later_state_record_event: "later_state st (record_event ev st)"
  by (simp add: later_state_def record_event_def)

lemma later_state_count_upload_failure: "later_state st (count_upload_failure st)"
  by (simp add: later_state_def count_upload_failure_def counters_def)

lemma later_state_get_amplify_logs:
  "later_state st (snd (get_amplify_logs env a s e st))"
  by (auto simp: get_amplify_logs_def Let_def
      intro: later_state_record_event later_state_trans
      split: proc_result.splits option.splits sum.splits http_result.splits)

lemma later_state_save_logs_locally:
  "later_state st (snd (save_logs_locally env a logs t st))"
  by (auto simp: save_logs_locally_def Let_def intro: later_state_record_event later_state_refl)

lemma later_state_upload_to_s3_snd:
  "later_state st (snd (upload_to_s3 env a f t dau st))"
  by (auto simp: upload_to_s3_def Let_def
      intro: later_state_record_event later_state_trans later_state_count_upload_failure
      split: proc_result.splits)

lemma later_state_upload_to_s3:
  "upload_to_s3 env a f t dau st = (r, st') \<Longrightarrow> later_state st st'"
  using later_state_upload_to_s3_snd[of st env a f t dau] by simp

text \<open>
  A call of \<^verbatim>\<open>get_amplify_logs\<close> changes nothing but the trace: it adds the fetch and, when
  there is a log to download, the download.
\<close>

lemma get_amplify_logs_state:
  "\<exists>rest. snd (get_amplify_logs env a s e st) =
             st\<lparr>trace := trace st @ fetch_of a (s, e) # rest\<rparr>
      \<and> filter is_persist rest = [] \<and> filter is_fetch rest = [] \<and> filter is_sleep rest = []"
  by (auto simp: get_amplify_logs_def Let_def record_event_def fetch_of_def
      split: proc_result.splits option.splits sum.splits http_result.splits)

lemma get_amplify_logs_trace:
  "\<exists>rest. trace (snd (get_amplify_logs env a s e st)) = trace st @ fetch_of a (s, e) # rest
      \<and> filter is_persist rest = [] \<and> filter is_fetch rest = [] \<and> filter is_sleep rest = []"
proof -
  from get_amplify_logs_state[of env a s e st] obtain rest where
    "snd (get_amplify_logs env a s e st) = st\<lparr>trace := trace st @ fetch_of a (s, e) # rest\<rparr>"
    "filter is_persist rest = []" "filter is_fetch rest = []" "filter is_sleep rest = []"
    by blast
  then have "trace (snd (get_amplify_logs env a s e st)) = trace st @ fetch_of a (s, e) # rest
      \<and> filter is_persist rest = [] \<and> filter is_fetch rest = [] \<and> filter is_sleep rest = []"
    by simp
  then show ?thesis by blast
qed

text \<open>
  By induction on the depth that is left: the two recursive calls are made one level
  deeper.
\<close>

lemma later_state_process_time_range:
  "later_state st (snd (process_time_range env a s e depth dau st))"
proof (induction "3 - depth" arbitrary: depth s e st)
  case 0
  then show ?case by (simp add: process_time_range.simps later_state_refl)
next
  case (Suc n)
  then have d: "\<not> depth > 2" "n = 3 - (depth + 1)" by simp_all
  obtain logs st1 where g: "get_amplify_logs env a s e st = (logs, st1)"
    by (cases "get_amplify_logs env a s e st")
  have e1: "later_state st st1" using later_state_get_amplify_logs[of st env a s e] g by simp
  show ?case
  proof (cases "logs = REDUCE_RANGE")
    case True
    obtain r1 st2 where
      p1: "process_time_range env a s (mid_time s e) (depth + 1) dau st1 = (r1, st2)"
      by (cases "process_time_range env a s (mid_time s e) (depth + 1) dau st1")
    obtain r2 st4 where
      p2: "process_time_range env a (mid_time s e) e (depth + 1) dau
             (record_event (Sleep 1) st2) = (r2, st4)"
      by (cases "process_time_range env a (mid_time s e) e (depth + 1) dau
             (record_event (Sleep 1) st2)")
    have "later_state st1 st2" using Suc.hyps(1)[OF d(2), of st1 s "mid_time s e"] p1 by simp
    moreover have "later_state (record_event (Sleep 1) st2) st4"
      using Suc.hyps(1)[OF d(2), of "record_event (Sleep 1) st2" "mid_time s e" e] p2 by simp
    ultimately have "later_state st st4"
      using e1 later_state_record_event[of st2 "Sleep 1"] by (blast intro: later_state_trans)
    moreover have "snd (process_time_range env a s e depth dau st) = st4"
      using d(1) g True p1 p2
      by (simp add: process_time_range.simps[of env a s e depth] split_range_def
          split: prod.splits)
    ultimately show ?thesis by simp
  next
    case False
    show ?thesis
      using d(1) g False e1 later_state_save_logs_locally[of st1 env a logs e]
      by (auto simp: process_time_range.simps[of env a s e depth]
          split: prod.splits sum.splits option.splits
          intro: later_state_trans)
        (metis later_state_trans later_state_upload_to_s3)
  qed
qed

lemma process_time_range_counters:
  assumes "process_time_range env a s e depth dau st = (r, st1)"
  shows "counters (self_stats st1) = counters (self_stats st)"
  using later_state_process_time_range[of st env a s e depth dau] assms
  by (simp add: later_state_def)

lemma process_time_range_prefix:
  assumes "process_time_range env a s e depth dau st = (r, st1)"
  shows "prefix (trace st) (trace st1)"
  using later_state_process_time_range[of st env a s e depth dau] assms
  by (simp add: later_state_def)

text \<open>Beyond depth 2 nothing is called; up to depth 2 the range is fetched first.\<close>

lemma process_time_range_too_deep:
  "depth > 2 \<Longrightarrow> process_time_range env a s e depth dau st = ((False, False), st)"
  by (simp add: process_time_range.simps)

lemma process_time_range_after_fetch:
  assumes "depth \<le> 2" "get_amplify_logs env a s e st = (logs, st1)"
  shows "later_state st1 (snd (process_time_range env a s e depth dau st))"
proof (cases "logs = REDUCE_RANGE")
  case True
  obtain r1 st2 where
    p1: "process_time_range env a s (mid_time s e) (depth + 1) dau st1 = (r1, st2)"
    by (cases "process_time_range env a s (mid_time s e) (depth + 1) dau st1")
  obtain r2 st4 where
    p2: "process_time_range env a (mid_time s e) e (depth + 1) dau
           (record_event (Sleep 1) st2) = (r2, st4)"
    by (cases "process_time_range env a (mid_time s e) e (depth + 1) dau
           (record_event (Sleep 1) st2)")
  have "later_state st1 st2"
    using later_state_process_time_range[of st1 env a s "mid_time s e" "depth + 1" dau] p1
    by simp
  moreover have "later_state (record_event (Sleep 1) st2) st4"
    using later_state_process_time_range[of "record_event (Sleep 1) st2" env a "mid_time s e" e
        "depth + 1" dau] p2 by simp
  ultimately have "later_state st1 st4"
    using later_state_record_event[of st2 "Sleep 1"] by (blast intro: later_state_trans)
  moreover have "snd (process_time_range env a s e depth dau st) = st4"
    using assms True p1 p2
    by (simp add: process_time_range.simps[of env a s e depth] split_range_def
        split: prod.splits)
  ultimately show ?thesis by simp
next
  case False
  show ?thesis
    using assms False later_state_save_logs_locally[of st1 env a logs e]
    by (auto simp: process_time_range.simps[of env a s e depth]
        split: prod.splits sum.splits option.splits
        intro: later_state_refl)
      (metis later_state_trans later_state_upload_to_s3)
qed

lemma process_time_range_fetches:
  assumes "depth \<le> 2"
  shows "fetch_of a (s, e) \<in> set (trace (snd (process_time_range env a s e depth dau st)))"
proof -
  obtain logs st1 where g: "get_amplify_logs env a s e st = (logs, st1)"
    by (cases "get_amplify_logs env a s e st")
  have "fetch_of a (s, e) \<in> set (trace st1)"
    using get_amplify_logs_trace[of env a s e st] g by auto
  moreover have "prefix (trace st1) (trace (snd (process_time_range env a s e depth dau st)))"
    using process_time_range_after_fetch[OF assms g] by (simp add: later_state_def)
  ultimately show ?thesis by (meson set_mono_prefix subsetD)
qed

section \<open>The command-line downloader: one pass of the chunk loop\<close>

lemma chunk_step_eq:
  assumes "process_time_range env a s e 0 dau st = ((success, is_empty), st1)"
  shows "chunk_step env a dau (s, e) (ast, st) =
    (if success then
       (if is_empty then
          (ast\<lparr>app_successful_chunks := app_successful_chunks ast + 1,
              app_empty_logs_chunks := app_empty_logs_chunks ast + 1\<rparr>,
           record_event (Sleep 1) (st1\<lparr>self_stats := (self_stats st1)
             \<lparr>successful_chunks := successful_chunks (self_stats st1) + 1,
              empty_logs_chunks := empty_logs_chunks (self_stats st1) + 1\<rparr>\<rparr>))
        else
          (ast\<lparr>app_successful_chunks := app_successful_chunks ast + 1\<rparr>,
           record_event (Sleep 1) (st1\<lparr>self_stats := (self_stats st1)
             \<lparr>successful_chunks := successful_chunks (self_stats st1) + 1\<rparr>\<rparr>)))
     else
       (ast\<lparr>app_failed_chunks := app_failed_chunks ast + 1,
           app_failed_ranges := app_failed_ranges ast @ [(s, e)]\<rparr>,
        record_event (Sleep 1) (st1\<lparr>self_stats := (self_stats st1)
          \<lparr>failed_chunks := failed_chunks (self_stats st1) + 1,
           failed_ranges := failed_ranges (self_stats st1) @ [(appName a, s, e)]\<rparr>\<rparr>)))"
  using assms by (simp add: chunk_step_def Let_def)

lemma chunk_step_ok:
  assumes "stats_ok n (self_stats st)" "app_stats_ok n ast"
    and "chunk_step env a dau chunk (ast, st) = (ast', st')"
  shows "stats_ok (Suc n) (self_stats st') \<and> app_stats_ok (Suc n) ast'"
proof -
  obtain s e where c: "chunk = (s, e)" by (cases chunk)
  obtain success is_empty st1 where
    p: "process_time_range env a s e 0 dau st = ((success, is_empty), st1)"
    by (cases "process_time_range env a s e 0 dau st") auto
  have "counters (self_stats st1) = counters (self_stats st)"
    using p by (rule process_time_range_counters)
  then have "stats_ok n (self_stats st1)"
    using assms(1) by (simp add: stats_ok_def counters_def)
  then show ?thesis
    using assms(2,3) unfolding c chunk_step_eq[OF p]
    by (auto simp: stats_ok_def app_stats_ok_def record_event_def split: if_splits)
qed

lemma chunk_loop_ok:
  assumes "stats_ok n (self_stats st)" "app_stats_ok n ast"
    and "chunk_loop env a dau time_ranges (ast, st) = (ast', st')"
  shows "stats_ok (n + length time_ranges) (self_stats st')
       \<and> app_stats_ok (n + length time_ranges) ast'"
  using assms
proof (induction time_ranges arbitrary: n ast st)
  case Nil
  then show ?case by simp
next
  case (Cons chunk time_ranges)
  obtain a1 st1 where s1: "chunk_step env a dau chunk (ast, st) = (a1, st1)"
    by (cases "chunk_step env a dau chunk (ast, st)")
  from chunk_step_ok[OF Cons.prems(1,2) s1]
  have ok: "stats_ok (Suc n) (self_stats st1)" "app_stats_ok (Suc n) a1" by simp_all
  from Cons.prems(3) s1 have "chunk_loop env a dau time_ranges (a1, st1) = (ast', st')"
    by simp
  from Cons.IH[OF ok this] show ?case by simp
qed

lemma chunk_step_facts:
  assumes "chunk_step env a dau chunk (ast, st) = (ast', st')"
  shows "total_chunks (self_stats st') = total_chunks (self_stats st)"
    and "app_total_chunks ast' = app_total_chunks ast"
    and "prefix (trace st) (trace st')"
    and "fetch_of a chunk \<in> set (trace st')"
    and "app_failed_ranges ast' = app_failed_ranges ast
         \<or> app_failed_ranges ast' = app_failed_ranges ast @ [chunk]"
proof -
  obtain s e where c: "chunk = (s, e)" by (cases chunk)
  obtain success is_empty st1 where
    p: "process_time_range env a s e 0 dau st = ((success, is_empty), st1)"
    by (cases "process_time_range env a s e 0 dau st") auto
  have cnt: "counters (self_stats st1) = counters (self_stats st)"
    using p by (rule process_time_range_counters)
  have pre: "prefix (trace st) (trace st1)"
    using p by (rule process_time_range_prefix)
  have fe: "fetch_of a (s, e) \<in> set (trace st1)"
    using process_time_range_fetches[of 0 a s e env dau st] p by simp
  show "total_chunks (self_stats st') = total_chunks (self_stats st)"
    using assms cnt unfolding c chunk_step_eq[OF p]
    by (auto simp: record_event_def counters_def split: if_splits)
  show "app_total_chunks ast' = app_total_chunks ast"
    using assms unfolding c chunk_step_eq[OF p] by (auto split: if_splits)
  have tr: "trace st' = trace st1 @ [Sleep 1]"
    using assms unfolding c chunk_step_eq[OF p] by (auto simp: record_event_def split: if_splits)
  show "prefix (trace st) (trace st')"
    using pre tr by (simp add: prefix_prefix)
  show "fetch_of a chunk \<in> set (trace st')"
    using fe tr c by simp
  show "app_failed_ranges ast' = app_failed_ranges ast
         \<or> app_failed_ranges ast' = app_failed_ranges ast @ [chunk]"
    using assms unfolding c chunk_step_eq[OF p] by (auto split: if_splits)
qed

lemma chunk_loop_facts:
  assumes "chunk_loop env a dau time_ranges (ast, st) = (ast', st')"
  shows "total_chunks (self_stats st') = total_chunks (self_stats st)
       \<and> app_total_chunks ast' = app_total_chunks ast
       \<and> prefix (trace st) (trace st')
       \<and> (\<forall>r \<in> set time_ranges. fetch_of a r \<in> set (trace st'))
       \<and> (\<exists>fs. app_failed_ranges ast' = app_failed_ranges ast @ fs
              \<and> set fs \<subseteq> set time_ranges)"
  using assms
proof (induction time_ranges arbitrary: ast st)
  case Nil
  then show ?case by simp
next
  case (Cons chunk time_ranges)
  obtain a1 st1 where s1: "chunk_step env a dau chunk (ast, st) = (a1, st1)"
    by (cases "chunk_step env a dau chunk (ast, st)")
  note f = chunk_step_facts[OF s1]
  from Cons.prems s1 have l: "chunk_loop env a dau time_ranges (a1, st1) = (ast', st')"
    by simp
  note ih = Cons.IH[OF l]
  from ih obtain fs where fs: "app_failed_ranges ast' = app_failed_ranges a1 @ fs"
    "set fs \<subseteq> set time_ranges" by blast
  have "total_chunks (self_stats st') = total_chunks (self_stats st)"
    using ih f(1) by simp
  moreover have "app_total_chunks ast' = app_total_chunks ast"
    using ih f(2) by simp
  moreover have "prefix (trace st) (trace st')"
    using ih f(3) by (meson prefix_order.order_trans)
  moreover have "\<forall>r \<in> set (chunk # time_ranges). fetch_of a r \<in> set (trace st')"
    using ih f(4) by (auto dest: set_mono_prefix)
  moreover have "\<exists>fs. app_failed_ranges ast' = app_failed_ranges ast @ fs
      \<and> set fs \<subseteq> set (chunk # time_ranges)"
  proof (cases "app_failed_ranges a1 = app_failed_ranges ast")
    case True
    with fs have "app_failed_ranges ast' = app_failed_ranges ast @ fs
      \<and> set fs \<subseteq> set (chunk # time_ranges)" by auto
    then show ?thesis by blast
  next
    case False
    with f(5) have "app_failed_ranges a1 = app_failed_ranges ast @ [chunk]" by blast
    with fs have "app_failed_ranges ast' = app_failed_ranges ast @ (chunk # fs)
      \<and> set (chunk # fs) \<subseteq> set (chunk # time_ranges)" by auto
    then show ?thesis by blast
  qed
  ultimately show ?case by blast
qed

lemma chunk_loop_app_ok:
  assumes "app_stats_ok n ast"
    and "chunk_loop env a dau time_ranges (ast, st) = (ast', st')"
  shows "app_stats_ok (n + length time_ranges) ast'"
  using assms
proof (induction time_ranges arbitrary: n ast st)
  case Nil
  then show ?case by simp
next
  case (Cons chunk time_ranges)
  obtain s e where c: "chunk = (s, e)" by (cases chunk)
  obtain success is_empty st1 where
    p: "process_time_range env a s e 0 dau st = ((success, is_empty), st1)"
    by (cases "process_time_range env a s e 0 dau st") auto
  obtain a1 st2 where s1: "chunk_step env a dau chunk (ast, st) = (a1, st2)"
    by (cases "chunk_step env a dau chunk (ast, st)")
  have "app_stats_ok (Suc n) a1"
    using Cons.prems(1) s1 unfolding c chunk_step_eq[OF p]
    by (auto simp: app_stats_ok_def split: if_splits)
  moreover from Cons.prems(2) s1
  have "chunk_loop env a dau time_ranges (a1, st2) = (ast', st')" by simp
  ultimately show ?case using Cons.IH by fastforce
qed

text \<open>When every call of \<^verbatim>\<open>subprocess.run\<close> raises, every chunk is a failed chunk.\<close>

lemma process_time_range_all_raise:
  assumes "\<forall>tr command. subprocess_run env tr command = RunFailed"
  shows "fst (process_time_range env a s e 0 dau st) = (False, False)"
  using assms
  by (simp add: process_time_range.simps[of env a s e 0] get_amplify_logs_def Let_def
      REDUCE_RANGE_def)

lemma chunk_loop_all_raise:
  assumes "\<forall>tr command. subprocess_run env tr command = RunFailed"
    and "chunk_loop env a dau time_ranges (ast, st) = (ast', st')"
  shows "app_failed_ranges ast' = app_failed_ranges ast @ time_ranges
       \<and> app_failed_chunks ast' = app_failed_chunks ast + length time_ranges"
  using assms(2)
proof (induction time_ranges arbitrary: ast st)
  case Nil
  then show ?case by simp
next
  case (Cons chunk time_ranges)
  obtain s e where c: "chunk = (s, e)" by (cases chunk)
  obtain st1 where p: "process_time_range env a s e 0 dau st = ((False, False), st1)"
    using process_time_range_all_raise[OF assms(1), of a s e dau st]
    by (cases "process_time_range env a s e 0 dau st") auto
  obtain a1 st2 where s1: "chunk_step env a dau chunk (ast, st) = (a1, st2)"
    by (cases "chunk_step env a dau chunk (ast, st)")
  have a1: "app_failed_ranges a1 = app_failed_ranges ast @ [chunk]"
    "app_failed_chunks a1 = app_failed_chunks ast + 1"
    using s1 unfolding c chunk_step_eq[OF p] by auto
  from Cons.prems s1 have "chunk_loop env a dau time_ranges (a1, st2) = (ast', st')" by simp
  from Cons.IH[OF this] a1 show ?case by simp
qed

lemma init_ok:
  "stats_ok 0 (self_stats (set_total_chunks n init_state))"
  "app_stats_ok 0 (fresh_app_stats a n)"
  by (simp_all add: stats_ok_def app_stats_ok_def set_total_chunks_def init_state_def
      init_stats_def fresh_app_stats_def)

lemmas run_defs =
  process_time_range.simps get_amplify_logs_def save_logs_locally_def upload_to_s3_def
  record_event_def count_upload_failure_def REDUCE_RANGE_def is_empty_logs_def
  split_range_def mid_time_def log_file_path_def s3_uri_of_def whole_seconds_def Let_def
  init_state_def init_stats_def chunk_step_def download_logs_def fresh_app_stats_def
  set_total_chunks_def fetch_of_def

lemmas env_defs =
  scripted_env_def example_app_def example_downloader_def url_response_def

section \<open>The command-line downloader: the statistics of a run\<close>

text \<open>
  C9.  After every pass of the chunk loop of a fresh downloader (the first \<open>k\<close> chunks
  have been processed), and in the statistics \<^verbatim>\<open>download_logs\<close> returns, both
  \<^verbatim>\<open>self.stats\<close> and \<^verbatim>\<open>app_stats\<close> satisfy: successful plus failed chunks is the number of
  chunks processed, the list of failed ranges is as long as the count of failed chunks,
  and the chunks with empty logs are at most the successful ones.
\<close>

theorem chunk_counters_invariant:
  "(\<forall>k. case chunk_loop env a dau (take k time_ranges)
              (fresh_app_stats a (length time_ranges),
               set_total_chunks (length time_ranges) init_state) of
          (app_stats, st) \<Rightarrow>
            stats_ok (length (take k time_ranges)) (self_stats st)
            \<and> app_stats_ok (length (take k time_ranges)) app_stats)
   \<and> (\<forall>rep st. download_logs env self start_date end_date dau init_state = Some (Inr (rep, st))
        \<longrightarrow> stats_ok (total_chunks (overall_stats rep)) (overall_stats rep)
          \<and> app_stats_ok (app_total_chunks (report_app_stats rep)) (report_app_stats rep))"
proof (rule conjI; intro allI impI)
  fix k
  obtain ast st where
    l: "chunk_loop env a dau (take k time_ranges)
          (fresh_app_stats a (length time_ranges),
           set_total_chunks (length time_ranges) init_state) = (ast, st)"
    by (cases "chunk_loop env a dau (take k time_ranges)
          (fresh_app_stats a (length time_ranges),
           set_total_chunks (length time_ranges) init_state)")
  from chunk_loop_ok[OF init_ok l]
  show "case chunk_loop env a dau (take k time_ranges)
              (fresh_app_stats a (length time_ranges),
               set_total_chunks (length time_ranges) init_state) of
          (app_stats, st) \<Rightarrow>
            stats_ok (length (take k time_ranges)) (self_stats st)
            \<and> app_stats_ok (length (take k time_ranges)) app_stats"
    unfolding l by simp
next
  fix rep st
  assume d: "download_logs env self start_date end_date dau init_state = Some (Inr (rep, st))"
  then obtain rs where
    g: "generate_time_ranges (self_chunk_size_days self) start_date end_date = Some (Inr rs)"
    by (auto simp: download_logs_def split: option.splits sum.splits)
  obtain ast where
    l: "chunk_loop env (self_app self) dau rs
          (fresh_app_stats (self_app self) (length rs), set_total_chunks (length rs) init_state)
        = (ast, st)"
    and rep: "rep = \<lparr>overall_stats = self_stats st, report_app_stats = ast\<rparr>"
    using d g by (auto simp: download_logs_def split: prod.splits)
  from chunk_loop_ok[OF init_ok l]
  have ok: "stats_ok (length rs) (self_stats st)" "app_stats_ok (length rs) ast" by simp_all
  from chunk_loop_facts[OF l]
  have "total_chunks (self_stats st) = length rs" "app_total_chunks ast = length rs"
    by (simp_all add: set_total_chunks_def fresh_app_stats_def)
  with ok rep
  show "stats_ok (total_chunks (overall_stats rep)) (overall_stats rep)
      \<and> app_stats_ok (app_total_chunks (report_app_stats rep)) (report_app_stats rep)"
    by simp
qed

text \<open>
  The run over January 2024 in which every upload is refused: it returns, and the
  counters of what it returns are consistent.
\<close>

theorem chunk_counters_invariant_witness:
  "\<exists>rep st. download_logs env_upload_refused example_downloader
              (ymd2ord 2024 1 1) (ymd2ord 2024 1 31) False init_state = Some (Inr (rep, st))
      \<and> stats_ok (total_chunks (overall_stats rep)) (overall_stats rep)
      \<and> app_stats_ok (app_total_chunks (report_app_stats rep)) (report_app_stats rep)
      \<and> total_chunks (overall_stats rep) = 3"
proof -
  have "\<exists>rep st. download_logs env_upload_refused example_downloader
              (ymd2ord 2024 1 1) (ymd2ord 2024 1 31) False init_state = Some (Inr (rep, st))
      \<and> total_chunks (overall_stats rep) = 3"
    by (simp add: env_upload_refused_def env_defs run_defs generate_time_ranges_def
        generate_loop.simps calendar_defs)
  then obtain rep st where
    d: "download_logs env_upload_refused example_downloader
              (ymd2ord 2024 1 1) (ymd2ord 2024 1 31) False init_state = Some (Inr (rep, st))"
    and t: "total_chunks (overall_stats rep) = 3" by blast
  from chunk_counters_invariant[where env = env_upload_refused and dau = False
      and self = example_downloader and start_date = "ymd2ord 2024 1 1"
      and end_date = "ymd2ord 2024 1 31"] d
  have "stats_ok (total_chunks (overall_stats rep)) (overall_stats rep)
      \<and> app_stats_ok (app_total_chunks (report_app_stats rep)) (report_app_stats rep)"
    by blast
  with d t show ?thesis by blast
qed

text \<open>
  C8.  Whatever the fetch and storage primitives do, once the list of chunks has been
  generated \<^verbatim>\<open>download_logs\<close> returns its report (no exception leaves the chunk loop:
  \<^verbatim>\<open>process_time_range\<close> and the loop have no error result).  Every chunk is processed
  (its fetch is in the trace) and is counted as successful or failed, the failed ranges
  are chunks of the list, and when every call of \<^verbatim>\<open>subprocess.run\<close> raises, the report
  lists every chunk as failed.
\<close>

theorem download_logs_always_reports:
  assumes "generate_time_ranges (self_chunk_size_days self) start_date end_date
             = Some (Inr time_ranges)"
  shows "\<exists>rep st'. download_logs env self start_date end_date dau st = Some (Inr (rep, st'))
     \<and> app_total_chunks (report_app_stats rep) = length time_ranges
     \<and> app_successful_chunks (report_app_stats rep) + app_failed_chunks (report_app_stats rep)
         = length time_ranges
     \<and> length (app_failed_ranges (report_app_stats rep))
         = app_failed_chunks (report_app_stats rep)
     \<and> set (app_failed_ranges (report_app_stats rep)) \<subseteq> set time_ranges
     \<and> (\<forall>r \<in> set time_ranges. fetch_of (self_app self) r \<in> set (trace st'))
     \<and> ((\<forall>tr command. subprocess_run env tr command = RunFailed) \<longrightarrow>
          app_failed_ranges (report_app_stats rep) = time_ranges
          \<and> app_failed_chunks (report_app_stats rep) = length time_ranges)"
proof -
  let ?a = "self_app self" and ?n = "length time_ranges"
  obtain ast st' where
    l: "chunk_loop env ?a dau time_ranges (fresh_app_stats ?a ?n, set_total_chunks ?n st)
        = (ast, st')"
    by (cases "chunk_loop env ?a dau time_ranges
        (fresh_app_stats ?a ?n, set_total_chunks ?n st)")
  have d: "download_logs env self start_date end_date dau st =
      Some (Inr (\<lparr>overall_stats = self_stats st', report_app_stats = ast\<rparr>, st'))"
    using assms l by (simp add: download_logs_def)
  note f = chunk_loop_facts[OF l]
  have a_ok: "app_stats_ok ?n ast"
    using chunk_loop_app_ok[OF init_ok(2) l] by simp
  have "app_total_chunks ast = ?n" using f by (simp add: fresh_app_stats_def)
  moreover have "app_successful_chunks ast + app_failed_chunks ast = ?n"
    "length (app_failed_ranges ast) = app_failed_chunks ast"
    using a_ok by (simp_all add: app_stats_ok_def)
  moreover have "set (app_failed_ranges ast) \<subseteq> set time_ranges"
    using f by (auto simp: fresh_app_stats_def)
  moreover have "\<forall>r \<in> set time_ranges. fetch_of ?a r \<in> set (trace st')"
    using f by blast
  moreover have "(\<forall>tr command. subprocess_run env tr command = RunFailed) \<longrightarrow>
          app_failed_ranges ast = time_ranges \<and> app_failed_chunks ast = ?n"
    using chunk_loop_all_raise[OF _ l] by (simp add: fresh_app_stats_def)
  ultimately show ?thesis using d by simp
qed

text \<open>
  The run over January 2024 in which every call raises: the three chunks are generated,
  fetched, and reported as failed.
\<close>

theorem download_logs_always_reports_witness:
  "\<exists>rep st'. download_logs env_all_raise example_downloader
        (ymd2ord 2024 1 1) (ymd2ord 2024 1 31) False init_state = Some (Inr (rep, st'))
     \<and> app_total_chunks (report_app_stats rep) = 3
     \<and> app_failed_chunks (report_app_stats rep) = 3
     \<and> app_failed_ranges (report_app_stats rep) =
         [(mk_datetime 2024 1 1 0 0 0, mk_datetime 2024 1 14 23 59 59),
          (mk_datetime 2024 1 15 0 0 0, mk_datetime 2024 1 28 23 59 59),
          (mk_datetime 2024 1 29 0 0 0, mk_datetime 2024 1 31 23 59 59)]"
proof -
  have r: "\<forall>tr command. subprocess_run env_all_raise tr command = RunFailed"
    by (simp add: env_all_raise_def scripted_env_def split: command.splits)
  have g: "generate_time_ranges (self_chunk_size_days example_downloader)
      (ymd2ord 2024 1 1) (ymd2ord 2024 1 31) =
       Some (Inr [(mk_datetime 2024 1 1 0 0 0, mk_datetime 2024 1 14 23 59 59),
                  (mk_datetime 2024 1 15 0 0 0, mk_datetime 2024 1 28 23 59 59),
                  (mk_datetime 2024 1 29 0 0 0, mk_datetime 2024 1 31 23 59 59)])"
    using generate_time_ranges_scenario by (simp add: example_downloader_def)
  from download_logs_always_reports[OF g, of env_all_raise False init_state] r
  show ?thesis by auto
qed

section \<open>The command-line downloader: the outcome of one chunk\<close>

text \<open>
  C7.  When the fetch of a chunk returns the empty string, the chunk is reported as a
  success with empty logs, the loop counts one more successful chunk and one more chunk
  with empty logs (and no failed one), and the pass makes no persist call: what it adds
  to the trace contains neither a write of a local file nor an upload.
\<close>

theorem empty_payload_is_success_without_persist:
  assumes "fst (get_amplify_logs env a s e st) = PStr ''''"
  shows "fst (process_time_range env a s e 0 dau st) = (True, True)
     \<and> (case chunk_step env a dau (s, e) (ast, st) of (ast', st') \<Rightarrow>
          app_successful_chunks ast' = app_successful_chunks ast + 1
        \<and> app_empty_logs_chunks ast' = app_empty_logs_chunks ast + 1
        \<and> app_failed_chunks ast' = app_failed_chunks ast
        \<and> app_failed_ranges ast' = app_failed_ranges ast
        \<and> successful_chunks (self_stats st') = successful_chunks (self_stats st) + 1
        \<and> empty_logs_chunks (self_stats st') = empty_logs_chunks (self_stats st) + 1
        \<and> failed_chunks (self_stats st') = failed_chunks (self_stats st)
        \<and> failed_ranges (self_stats st') = failed_ranges (self_stats st)
        \<and> (\<exists>new. trace st' = trace st @ new \<and> filter is_persist new = []))"
proof -
  obtain st1 where g: "get_amplify_logs env a s e st = (PStr '''', st1)"
    using assms by (cases "get_amplify_logs env a s e st") auto
  have p: "process_time_range env a s e 0 dau st = ((True, True), st1)"
    using g by (simp add: process_time_range.simps[of env a s e 0] REDUCE_RANGE_def
        is_empty_logs_def)
  have c: "counters (self_stats st1) = counters (self_stats st)"
    using p by (rule process_time_range_counters)
  obtain rest where t: "trace st1 = trace st @ fetch_of a (s, e) # rest"
    "filter is_persist rest = []"
    using get_amplify_logs_trace[of env a s e st] g by auto
  have "trace st1 @ [Sleep 1] = trace st @ (fetch_of a (s, e) # rest @ [Sleep 1])
      \<and> filter is_persist (fetch_of a (s, e) # rest @ [Sleep 1]) = []"
    using t by (simp add: fetch_of_def)
  then have "\<exists>new. trace st1 @ [Sleep 1] = trace st @ new \<and> filter is_persist new = []"
    by blast
  then show ?thesis
    using c unfolding chunk_step_eq[OF p] p
    by (simp add: record_event_def counters_def)
qed

text \<open>A chunk of the run in which every downloaded log is empty.\<close>

theorem empty_payload_is_success_without_persist_witness:
  "fst (get_amplify_logs env_empty_logs example_app
          (mk_datetime 2024 1 1 0 0 0) (mk_datetime 2024 1 14 23 59 59) init_state) = PStr ''''
   \<and> fst (process_time_range env_empty_logs example_app
          (mk_datetime 2024 1 1 0 0 0) (mk_datetime 2024 1 14 23 59 59) 0 False init_state)
       = (True, True)
   \<and> (case chunk_step env_empty_logs example_app False
             (mk_datetime 2024 1 1 0 0 0, mk_datetime 2024 1 14 23 59 59)
             (fresh_app_stats example_app 1, init_state) of (ast', st') \<Rightarrow>
          app_successful_chunks ast' = 1 \<and> app_empty_logs_chunks ast' = 1
        \<and> successful_chunks (self_stats st') = 1 \<and> empty_logs_chunks (self_stats st') = 1
        \<and> filter is_persist (trace st') = [])"
proof -
  have g: "fst (get_amplify_logs env_empty_logs example_app
          (mk_datetime 2024 1 1 0 0 0) (mk_datetime 2024 1 14 23 59 59) init_state) = PStr ''''"
    by (simp add: env_empty_logs_def env_defs run_defs)
  from empty_payload_is_success_without_persist[OF g, of False "fresh_app_stats example_app 1"] g
  show ?thesis
    by (auto simp: fresh_app_stats_def init_state_def init_stats_def split: prod.splits)
qed

text \<open>
  C2 (the claim as stated fails).  In the run over 2024-01-01 in which the fetch returns
  a log line and the upload is refused, the upload failure is counted, but the chunk is
  counted as failed and its range is listed among the failed ranges; no chunk is counted
  as successful.
\<close>

theorem upload_failure_counterexample:
  "fst (get_amplify_logs env_upload_refused example_app
          (mk_datetime 2024 1 1 0 0 0) (mk_datetime 2024 1 1 23 59 59)
          (set_total_chunks 1 init_state)) = PStr ''GET /index.html 200''
   \<and> (case download_logs env_upload_refused example_downloader
             (ymd2ord 2024 1 1) (ymd2ord 2024 1 1) False init_state of
        Some (Inr (rep, st)) \<Rightarrow>
          upload_failures (overall_stats rep) = 1
        \<and> successful_chunks (overall_stats rep) = 0
        \<and> failed_chunks (overall_stats rep) = 1
        \<and> failed_ranges (overall_stats rep) =
             [(appName example_app, mk_datetime 2024 1 1 0 0 0, mk_datetime 2024 1 1 23 59 59)]
        \<and> app_successful_chunks (report_app_stats rep) = 0
        \<and> app_failed_ranges (report_app_stats rep) =
             [(mk_datetime 2024 1 1 0 0 0, mk_datetime 2024 1 1 23 59 59)]
      | _ \<Rightarrow> False)"
  by (simp add: env_upload_refused_def env_defs run_defs generate_time_ranges_def
      generate_loop.simps calendar_defs)

text \<open>
  C2 (amended).  When the fetch of a chunk returns a payload that is neither the split
  signal nor \<^verbatim>\<open>None\<close> nor empty, the payload is saved locally and the upload fails, then the
  pass of the loop counts one more upload failure and counts the chunk as failed: one more
  failed chunk, the range appended to the failed ranges, no more successful chunks.
\<close>

theorem upload_failure_counts_chunk_as_failed:
  assumes "get_amplify_logs env a s e st = (logs, st1)"
    and "logs \<noteq> REDUCE_RANGE" "logs \<noteq> PNone" "\<not> is_empty_logs logs"
    and "save_logs_locally env a logs e st1 = (Inr (Some f), st2)"
    and "fst (upload_to_s3 env a f e dau st2) = False"
  shows "case chunk_step env a dau (s, e) (ast, st) of (ast', st') \<Rightarrow>
          upload_failures (self_stats st') = upload_failures (self_stats st) + 1
        \<and> failed_chunks (self_stats st') = failed_chunks (self_stats st) + 1
        \<and> failed_ranges (self_stats st') = failed_ranges (self_stats st) @ [(appName a, s, e)]
        \<and> successful_chunks (self_stats st') = successful_chunks (self_stats st)
        \<and> app_failed_chunks ast' = app_failed_chunks ast + 1
        \<and> app_failed_ranges ast' = app_failed_ranges ast @ [(s, e)]
        \<and> app_successful_chunks ast' = app_successful_chunks ast"
proof -
  obtain st3 where u: "upload_to_s3 env a f e dau st2 = (False, st3)"
    using assms(6) by (cases "upload_to_s3 env a f e dau st2") auto
  have p: "process_time_range env a s e 0 dau st = ((False, False), st3)"
    using assms(1-5) u by (simp add: process_time_range.simps[of env a s e 0])
  have c: "counters (self_stats st3) = counters (self_stats st)"
    using p by (rule process_time_range_counters)
  have "self_stats st1 = self_stats st"
    using assms(1) by (auto simp: get_amplify_logs_def Let_def record_event_def
        split: proc_result.splits option.splits sum.splits http_result.splits if_splits)
  moreover have "self_stats st2 = self_stats st1"
    using assms(5) by (auto simp: save_logs_locally_def Let_def record_event_def
        split: if_splits)
  moreover have "upload_failures (self_stats st3) = upload_failures (self_stats st2) + 1"
    using u by (auto simp: upload_to_s3_def Let_def record_event_def count_upload_failure_def
        split: proc_result.splits if_splits)
  ultimately have "upload_failures (self_stats st3) = upload_failures (self_stats st) + 1"
    by simp
  then show ?thesis
    using c unfolding chunk_step_eq[OF p]
    by (simp add: record_event_def counters_def)
qed

text \<open>The chunk of 2024-01-01 in the run in which every upload is refused.\<close>

theorem upload_failure_counts_chunk_as_failed_witness:
  "case chunk_step env_upload_refused example_app False
          (mk_datetime 2024 1 1 0 0 0, mk_datetime 2024 1 1 23 59 59)
          (fresh_app_stats example_app 1, init_state) of (ast', st') \<Rightarrow>
      upload_failures (self_stats st') = 1 \<and> failed_chunks (self_stats st') = 1
    \<and> failed_ranges (self_stats st') =
         [(appName example_app, mk_datetime 2024 1 1 0 0 0, mk_datetime 2024 1 1 23 59 59)]
    \<and> successful_chunks (self_stats st') = 0
    \<and> app_failed_chunks ast' = 1 \<and> app_successful_chunks ast' = 0"
proof -
  let ?s = "mk_datetime 2024 1 1 0 0 0" and ?e = "mk_datetime 2024 1 1 23 59 59"
  let ?f = "log_file_path example_app ?e"
  let ?st1 = "snd (get_amplify_logs env_upload_refused example_app ?s ?e init_state)"
  let ?st2 = "snd (save_logs_locally env_upload_refused example_app
      (PStr ''GET /index.html 200'') ?e ?st1)"
  have g: "get_amplify_logs env_upload_refused example_app ?s ?e init_state
      = (PStr ''GET /index.html 200'', ?st1)"
    by (simp add: env_upload_refused_def env_defs run_defs)
  have sv: "save_logs_locally env_upload_refused example_app (PStr ''GET /index.html 200'')
      ?e ?st1 = (Inr (Some ?f), ?st2)"
    by (simp add: env_upload_refused_def env_defs run_defs)
  have up: "fst (upload_to_s3 env_upload_refused example_app ?f ?e False ?st2) = False"
    by (simp add: env_upload_refused_def env_defs run_defs)
  from upload_failure_counts_chunk_as_failed[OF g _ _ _ sv up,
      of "fresh_app_stats example_app 1"]
  show ?thesis
    by (auto simp: REDUCE_RANGE_def is_empty_logs_def fresh_app_stats_def init_state_def
        init_stats_def split: prod.splits)
qed

text \<open>
  C1 (the claim as stated fails).  In the run over 2024-01-01 the fetch of the chunk asks
  for a smaller range, the first half is fetched, saved and uploaded, and the fetch of
  the second half fails.  \<^verbatim>\<open>process_time_range\<close> reports the chunk as a success, and the
  report of \<^verbatim>\<open>download_logs\<close> has no failed range at all: the failed half is not in it.
\<close>

theorem partial_success_counterexample:
  "(let s = mk_datetime 2024 1 1 0 0 0; e = mk_datetime 2024 1 1 23 59 59;
        st0 = set_total_chunks 1 init_state;
        st1 = snd (get_amplify_logs env_second_half_fails example_app s e st0);
        first_half = process_time_range env_second_half_fails example_app
                       s (mid_time s e) 1 False st1;
        second_half = process_time_range env_second_half_fails example_app
                       (mid_time s e) e 1 False (record_event (Sleep 1) (snd first_half))
    in fst (get_amplify_logs env_second_half_fails example_app s e st0) = REDUCE_RANGE
     \<and> fst first_half = (True, False)
     \<and> fst second_half = (False, False)
     \<and> fst (process_time_range env_second_half_fails example_app s e 0 False st0)
         = (True, False))
   \<and> (case download_logs env_second_half_fails example_downloader
             (ymd2ord 2024 1 1) (ymd2ord 2024 1 1) False init_state of
        Some (Inr (rep, st)) \<Rightarrow>
          successful_chunks (overall_stats rep) = 1
        \<and> failed_chunks (overall_stats rep) = 0
        \<and> failed_ranges (overall_stats rep) = []
        \<and> app_failed_ranges (report_app_stats rep) = []
      | _ \<Rightarrow> False)"
  unfolding Let_def
  by (simp add: env_second_half_fails_def env_defs run_defs generate_time_ranges_def
      generate_loop.simps calendar_defs sublist_code)

text \<open>
  C1 (amended).  When the fetch of a chunk asks for a smaller range, the first half
  succeeds and the second half fails, \<^verbatim>\<open>process_time_range\<close> reports the chunk as a
  success, and the pass of the loop counts one more successful chunk and leaves the
  failed chunks and the failed ranges as they are, in \<^verbatim>\<open>self.stats\<close> and in
  \<^verbatim>\<open>app_stats\<close>: the failed half is not recorded.
\<close>

theorem partial_success_is_success_and_unreported:
  assumes "get_amplify_logs env a s e st = (REDUCE_RANGE, st1)"
    and "process_time_range env a s (mid_time s e) 1 dau st1 = ((True, empty1), st2)"
    and "process_time_range env a (mid_time s e) e 1 dau (record_event (Sleep 1) st2)
           = ((False, empty2), st4)"
  shows "fst (fst (process_time_range env a s e 0 dau st)) = True
     \<and> (case chunk_step env a dau (s, e) (ast, st) of (ast', st') \<Rightarrow>
          successful_chunks (self_stats st') = successful_chunks (self_stats st) + 1
        \<and> failed_chunks (self_stats st') = failed_chunks (self_stats st)
        \<and> failed_ranges (self_stats st') = failed_ranges (self_stats st)
        \<and> app_successful_chunks ast' = app_successful_chunks ast + 1
        \<and> app_failed_chunks ast' = app_failed_chunks ast
        \<and> app_failed_ranges ast' = app_failed_ranges ast)"
proof -
  have p: "process_time_range env a s e 0 dau st = ((True, empty1 \<and> empty2), st4)"
    using assms by (simp add: process_time_range.simps[of env a s e 0] split_range_def)
  have c: "counters (self_stats st4) = counters (self_stats st)"
    using p by (rule process_time_range_counters)
  show ?thesis
    using c unfolding chunk_step_eq[OF p] p
    by (simp add: record_event_def counters_def)
qed

text \<open>The chunk of 2024-01-01 in the run in which the fetch of the second half fails.\<close>

theorem partial_success_is_success_and_unreported_witness:
  "fst (fst (process_time_range env_second_half_fails example_app
          (mk_datetime 2024 1 1 0 0 0) (mk_datetime 2024 1 1 23 59 59) 0 False init_state))
     = True
   \<and> (case chunk_step env_second_half_fails example_app False
             (mk_datetime 2024 1 1 0 0 0, mk_datetime 2024 1 1 23 59 59)
             (fresh_app_stats example_app 1, init_state) of (ast', st') \<Rightarrow>
          successful_chunks (self_stats st') = 1 \<and> failed_chunks (self_stats st') = 0
        \<and> failed_ranges (self_stats st') = []
        \<and> app_successful_chunks ast' = 1 \<and> app_failed_ranges ast' = [])"
proof -
  let ?env = env_second_half_fails
  let ?s = "mk_datetime 2024 1 1 0 0 0" and ?e = "mk_datetime 2024 1 1 23 59 59"
  let ?st1 = "snd (get_amplify_logs ?env example_app ?s ?e init_state)"
  let ?h1 = "process_time_range ?env example_app ?s (mid_time ?s ?e) 1 False ?st1"
  let ?h2 = "process_time_range ?env example_app (mid_time ?s ?e) ?e 1 False
      (record_event (Sleep 1) (snd ?h1))"
  have g: "get_amplify_logs ?env example_app ?s ?e init_state = (REDUCE_RANGE, ?st1)"
    by (simp add: env_second_half_fails_def env_defs run_defs sublist_code)
  have h1: "?h1 = ((True, False), snd ?h1)"
    by (simp add: env_second_half_fails_def env_defs run_defs sublist_code calendar_defs)
  have h2: "?h2 = ((False, False), snd ?h2)"
    by (simp add: env_second_half_fails_def env_defs run_defs sublist_code calendar_defs)
  from partial_success_is_success_and_unreported[OF g h1 h2,
      of "fresh_app_stats example_app 1"]
  show ?thesis
    by (auto simp: fresh_app_stats_def init_state_def init_stats_def split: prod.splits)
qed

text \<open>
  C10.  When the fetch returns a value that is neither a string nor \<^verbatim>\<open>None\<close> (a response
  without \<^verbatim>\<open>logUrl\<close>), \<^verbatim>\<open>process_time_range\<close> never reports empty logs for it; right after
  the fetch it writes the value as JSON to the log file named after the end of the range;
  and it reports success exactly when that write and the upload of the file succeed.
\<close>

theorem non_string_response_is_persisted:
  assumes "get_amplify_logs env a s e st = (logs, st1)"
    and "\<not> is_str logs" "logs \<noteq> PNone"
  shows "case process_time_range env a s e 0 dau st of ((success, is_empty), st') \<Rightarrow>
            \<not> is_empty
          \<and> (\<exists>rest. trace st' =
                 trace st1 @ WriteFile (log_file_path a e) (JsonDump logs) # rest)
          \<and> log_file_path a e = LogFile FIXED_OUTPUT_DIR (appName a) (whole_seconds e)
          \<and> success =
              (write_file env (trace st1) (log_file_path a e) (JsonDump logs)
               \<and> (\<exists>out. subprocess_run env
                      (trace st1 @ [WriteFile (log_file_path a e) (JsonDump logs)])
                      (S3Cp (log_file_path a e) (s3_uri_of a e) S3_PROFILE) = Completed out))"
proof -
  have n: "logs \<noteq> REDUCE_RANGE" "\<not> is_empty_logs logs"
    "(case logs of PStr x \<Rightarrow> Text x | _ \<Rightarrow> JsonDump logs) = JsonDump logs"
    using assms(2) by (cases logs; simp add: REDUCE_RANGE_def is_empty_logs_def)+
  show ?thesis
    using assms(1,3) n
    by (auto simp: process_time_range.simps[of env a s e 0] save_logs_locally_def
        upload_to_s3_def Let_def record_event_def count_upload_failure_def log_file_path_def
        split: proc_result.splits)
qed

text \<open>A chunk of the run in which every response lacks \<^verbatim>\<open>logUrl\<close>.\<close>

theorem non_string_response_is_persisted_witness:
  "fst (get_amplify_logs env_no_url example_app
          (mk_datetime 2024 1 1 0 0 0) (mk_datetime 2024 1 14 23 59 59) init_state)
     = PDict [(''message'', PStr ''no logs'')]
   \<and> (case process_time_range env_no_url example_app
             (mk_datetime 2024 1 1 0 0 0) (mk_datetime 2024 1 14 23 59 59) 0 False init_state of
        ((success, is_empty), st') \<Rightarrow>
           success \<and> \<not> is_empty
         \<and> WriteFile (LogFile FIXED_OUTPUT_DIR (appName example_app)
                (whole_seconds (mk_datetime 2024 1 14 23 59 59)))
              (JsonDump (PDict [(''message'', PStr ''no logs'')])) \<in> set (trace st'))"
proof -
  let ?s = "mk_datetime 2024 1 1 0 0 0" and ?e = "mk_datetime 2024 1 14 23 59 59"
  let ?logs = "PDict [(''message'', PStr ''no logs'')]"
  let ?st1 = "snd (get_amplify_logs env_no_url example_app ?s ?e init_state)"
  have g1: "fst (get_amplify_logs env_no_url example_app ?s ?e init_state) = ?logs"
    by (simp add: env_no_url_def env_defs run_defs)
  then have g: "get_amplify_logs env_no_url example_app ?s ?e init_state = (?logs, ?st1)"
    by (simp add: prod_eq_iff)
  have w: "write_file env_no_url (trace ?st1) (log_file_path example_app ?e) (JsonDump ?logs)"
    by (simp add: env_no_url_def env_defs)
  have u: "subprocess_run env_no_url
      (trace ?st1 @ [WriteFile (log_file_path example_app ?e) (JsonDump ?logs)])
      (S3Cp (log_file_path example_app ?e) (s3_uri_of example_app ?e) S3_PROFILE)
      = Completed ''upload: done''"
    by (simp add: env_no_url_def env_defs)
  from non_string_response_is_persisted[OF g, of False] w u
  have "case process_time_range env_no_url example_app ?s ?e 0 False init_state of
        ((success, is_empty), st') \<Rightarrow>
           success \<and> \<not> is_empty
         \<and> WriteFile (LogFile FIXED_OUTPUT_DIR (appName example_app) (whole_seconds ?e))
              (JsonDump ?logs) \<in> set (trace st')"
    by (auto split: prod.splits)
  with g1 show ?thesis by blast
qed

section \<open>The Lambda function: retries and recursion\<close>

lemma lambda_run_download:
  "lambda_run env a td (DownloadAmplifyLogs s e m d) tr =
     (if \<not> os_makedirs env tr (OutputDir td (lam_appName a) (s div us_per_day))
      then Some ([], tr @ [MakeDirs (OutputDir td (lam_appName a) (s div us_per_day))])
      else if \<not> boto3_client env
                 (tr @ [MakeDirs (OutputDir td (lam_appName a) (s div us_per_day))])
                 (lam_region a)
      then Some ([], tr @ [MakeDirs (OutputDir td (lam_appName a) (s div us_per_day)),
                          CreateClient (lam_region a)])
      else lambda_run env a td (RetryLoop s e m d 0)
             (tr @ [MakeDirs (OutputDir td (lam_appName a) (s div us_per_day)),
                    CreateClient (lam_region a)]))"
  by (subst lambda_run.simps) (simp add: Let_def)

lemma handle_large_time_range_guard:
  "max_depth \<le> depth \<Longrightarrow>
     lambda_run env a td (HandleLargeTimeRange s e depth max_depth) tr = Some ([], tr)"
  by (subst lambda_run.simps) simp

lemma lambda_run_retry_exhausted:
  "m \<le> retry \<Longrightarrow> lambda_run env a td (RetryLoop s e m d retry) tr = Some ([], tr)"
  by (subst lambda_run.simps) simp

text \<open>One pass of the retry loop that ends in a transient failure.\<close>

lemma lambda_run_retry_transient:
  assumes "retry < m" "transient_attempt env a s e tr"
  shows "\<exists>evs. filter is_api_call evs = [CallApi a (whole_seconds s) (whole_seconds e)]
           \<and> filter is_wait evs = []
           \<and> lambda_run env a td (RetryLoop s e m d retry) tr =
               (if retry < m - 1
                then lambda_run env a td (RetryLoop s e m d (retry + 1))
                       (tr @ evs @ [Wait (d * 2 ^ retry)])
                else Some ([], tr @ evs))"
proof (cases "generate_access_logs env tr a (whole_seconds s) (whole_seconds e)")
  case (ApiResponse response)
  with assms(2) obtain log_url where u: "map_of response ''logUrl'' = Some log_url"
    by (auto simp: transient_attempt_def split: option.splits)
  let ?evs = "[CallApi a (whole_seconds s) (whole_seconds e), HttpGet log_url]"
  have "lambda_run env a td (RetryLoop s e m d retry) tr =
               (if retry < m - 1
                then lambda_run env a td (RetryLoop s e m d (retry + 1))
                       (tr @ ?evs @ [Wait (d * 2 ^ retry)])
                else Some ([], tr @ ?evs))"
    using assms ApiResponse u
    by (subst lambda_run.simps)
      (auto simp: transient_attempt_def Let_def split: http_result.splits)
  moreover have "filter is_api_call ?evs = [CallApi a (whole_seconds s) (whole_seconds e)]"
    "filter is_wait ?evs = []" by simp_all
  ultimately show ?thesis by blast
next
  case (BadRequestException msg)
  let ?evs = "[CallApi a (whole_seconds s) (whole_seconds e)]"
  have "lambda_run env a td (RetryLoop s e m d retry) tr =
               (if retry < m - 1
                then lambda_run env a td (RetryLoop s e m d (retry + 1))
                       (tr @ ?evs @ [Wait (d * 2 ^ retry)])
                else Some ([], tr @ ?evs))"
    using assms BadRequestException
    by (subst lambda_run.simps) (auto simp: transient_attempt_def Let_def)
  moreover have "filter is_api_call ?evs = [CallApi a (whole_seconds s) (whole_seconds e)]"
    "filter is_wait ?evs = []" by simp_all
  ultimately show ?thesis by blast
next
  case ResourceNotFoundException
  with assms(2) show ?thesis by (simp add: transient_attempt_def)
next
  case ApiFailed
  let ?evs = "[CallApi a (whole_seconds s) (whole_seconds e)]"
  have "lambda_run env a td (RetryLoop s e m d retry) tr =
               (if retry < m - 1
                then lambda_run env a td (RetryLoop s e m d (retry + 1))
                       (tr @ ?evs @ [Wait (d * 2 ^ retry)])
                else Some ([], tr @ ?evs))"
    using assms ApiFailed
    by (subst lambda_run.simps) (auto simp: transient_attempt_def Let_def)
  moreover have "filter is_api_call ?evs = [CallApi a (whole_seconds s) (whole_seconds e)]"
    "filter is_wait ?evs = []" by simp_all
  ultimately show ?thesis by blast
qed

text \<open>
  The loop from pass \<open>retry\<close> on, when every attempt ends in a transient failure: one API
  call per remaining pass, and between two passes a delay that doubles each time.
\<close>

lemma lambda_run_retry_loop_transient:
  assumes "\<forall>tr. transient_attempt env a s e tr" "retry \<le> m"
  shows "\<exists>new. lambda_run env a td (RetryLoop s e m d retry) tr = Some ([], tr @ new)
           \<and> filter is_api_call new =
               replicate (m - retry) (CallApi a (whole_seconds s) (whole_seconds e))
           \<and> filter is_wait new = map (\<lambda>k. Wait (d * 2 ^ k)) [retry ..< m - 1]"
  using assms(2)
proof (induction "m - retry" arbitrary: retry tr)
  case 0
  then have "lambda_run env a td (RetryLoop s e m d retry) tr = Some ([], tr @ [])"
    by (simp add: lambda_run_retry_exhausted)
  moreover have "filter is_api_call [] =
      replicate (m - retry) (CallApi a (whole_seconds s) (whole_seconds e))"
    "filter is_wait [] = map (\<lambda>k. Wait (d * 2 ^ k)) [retry ..< m - 1]"
    using 0 by simp_all
  ultimately show ?case by blast
next
  case (Suc n)
  then have lt: "retry < m" by simp
  from lambda_run_retry_transient[OF lt, of env a s e tr td d] assms(1)
  obtain evs where evs: "filter is_api_call evs = [CallApi a (whole_seconds s) (whole_seconds e)]"
    "filter is_wait evs = []"
    and run: "lambda_run env a td (RetryLoop s e m d retry) tr =
               (if retry < m - 1
                then lambda_run env a td (RetryLoop s e m d (retry + 1))
                       (tr @ evs @ [Wait (d * 2 ^ retry)])
                else Some ([], tr @ evs))"
    by blast
  show ?case
  proof (cases "retry < m - 1")
    case True
    have "n = m - (retry + 1)" "retry + 1 \<le> m" using Suc.hyps(2) lt by simp_all
    from Suc.hyps(1)[OF this, of "tr @ evs @ [Wait (d * 2 ^ retry)]"]
    obtain new where new:
      "lambda_run env a td (RetryLoop s e m d (retry + 1)) (tr @ evs @ [Wait (d * 2 ^ retry)])
         = Some ([], (tr @ evs @ [Wait (d * 2 ^ retry)]) @ new)"
      "filter is_api_call new =
         replicate (m - (retry + 1)) (CallApi a (whole_seconds s) (whole_seconds e))"
      "filter is_wait new = map (\<lambda>k. Wait (d * 2 ^ k)) [retry + 1 ..< m - 1]"
      by blast
    let ?new = "evs @ [Wait (d * 2 ^ retry)] @ new"
    have "lambda_run env a td (RetryLoop s e m d retry) tr = Some ([], tr @ ?new)"
      using run True new(1) by simp
    moreover have "filter is_api_call ?new =
        replicate (m - retry) (CallApi a (whole_seconds s) (whole_seconds e))"
    proof -
      have "m - retry = Suc (m - (retry + 1))" using lt by simp
      then show ?thesis using evs(1) new(2) by simp
    qed
    moreover have "filter is_wait ?new = map (\<lambda>k. Wait (d * 2 ^ k)) [retry ..< m - 1]"
      using evs(2) new(3) True by (simp add: upt_conv_Cons)
    ultimately show ?thesis by blast
  next
    case False
    with lt have last: "m - retry = 1" "[retry ..< m - 1] = []" by simp_all
    have "lambda_run env a td (RetryLoop s e m d retry) tr = Some ([], tr @ evs)"
      using run False by simp
    with evs last show ?thesis by auto
  qed
qed

text \<open>
  With an API that always asks for a smaller range, a call returns only if it returns at
  once: \<^verbatim>\<open>download_amplify_logs\<close> hands the range to \<^verbatim>\<open>handle_large_time_range\<close> at depth 0,
  which calls \<^verbatim>\<open>download_amplify_logs\<close> on the halves, which hands each half on at depth 0
  again.
\<close>

lemma lambda_run_always_too_large:
  assumes "lambda_run env a td call tr = Some y"
  shows "env = lambda_env_always_too_large \<longrightarrow> returns_at_once call"
proof (rule lambda_run.raw_induct
    [where P = "\<lambda>env a td call tr y.
        env = lambda_env_always_too_large \<longrightarrow> returns_at_once call", OF _ assms],
    goal_cases)
  case (1 f env a td call tr y)
  show ?case
  proof
    assume env: "env = lambda_env_always_too_large"
    show "returns_at_once call"
    proof (cases call)
      case (DownloadAmplifyLogs s e m d)
      with 1(2) env obtain tr' where "f env a td (RetryLoop s e m d 0) tr' = Some y"
        by (auto simp: lambda_env_always_too_large_def Let_def)
      from 1(1)[OF this] env DownloadAmplifyLogs show ?thesis by simp
    next
      case (RetryLoop s e m d retry)
      show ?thesis
      proof (rule ccontr)
        assume "\<not> returns_at_once call"
        with RetryLoop have "retry < m" by simp
        with 1(2) env RetryLoop obtain tr' where
          "f env a td (HandleLargeTimeRange s e 0 3) tr' = Some y"
          by (auto simp: lambda_env_always_too_large_def Let_def too_many_records_def
              sublist_code)
        from 1(1)[OF this] env show False by simp
      qed
    next
      case (HandleLargeTimeRange s e depth max_depth)
      show ?thesis
      proof (rule ccontr)
        assume "\<not> returns_at_once call"
        with HandleLargeTimeRange have "\<not> max_depth \<le> depth" by simp
        with 1(2) HandleLargeTimeRange obtain s' e' y' where
          "f env a td (DownloadAmplifyLogs s' e' 3 2) tr = Some y'"
          by (auto simp: Let_def bind_eq_Some_conv split: prod.splits)
        from 1(1)[OF this] env show False by simp
      qed
    qed
  qed
qed

text \<open>
  C3 (the Lambda function does not bound the recursion).  \<^verbatim>\<open>handle_large_time_range\<close> has
  a depth parameter and gives up at \<^verbatim>\<open>depth >= max_depth\<close>, but it is only ever entered
  through \<^verbatim>\<open>download_amplify_logs\<close>, which passes no depth: every entry is at depth 0.  With
  an API that always asks for a smaller range \<^verbatim>\<open>download_amplify_logs\<close> never returns (in
  the interpreter: until the recursion limit is hit).
\<close>

theorem lambda_recursion_is_unbounded:
  "download_amplify_logs lambda_env_always_too_large a start_time end_time temp_dir tr = None"
proof (rule ccontr)
  assume "download_amplify_logs lambda_env_always_too_large a start_time end_time temp_dir tr
      \<noteq> None"
  then obtain y where
    "lambda_run lambda_env_always_too_large a temp_dir
       (DownloadAmplifyLogs start_time end_time 3 2) tr = Some y"
    by (auto simp: download_amplify_logs_def)
  from lambda_run_always_too_large[OF this] show False by simp
qed

text \<open>
  The command-line downloader does bound it: \<^verbatim>\<open>process_time_range\<close> passes \<^verbatim>\<open>depth + 1\<close> to
  both halves and returns at once beyond depth 2.  When every fetch asks for a smaller
  range, a call at depth \<open>d\<close> fails after \<open>2 ^ (3 - d) - 1\<close> fetches: seven for a chunk,
  on the ranges of depth 0, 1 and 2, with the eight ranges of depth 3 given up unfetched.
\<close>

lemma process_time_range_always_reduce:
  assumes "\<forall>s e st. fst (get_amplify_logs env a s e st) = REDUCE_RANGE"
  shows "fst (process_time_range env a s e depth dau st) = (False, False)
       \<and> length (filter is_fetch (trace (snd (process_time_range env a s e depth dau st))))
           + 1
          = length (filter is_fetch (trace st)) + 2 ^ (3 - depth)"
proof (induction "3 - depth" arbitrary: depth s e st)
  case 0
  then show ?case by (simp add: process_time_range.simps)
next
  case (Suc n)
  then have d: "\<not> depth > 2" "n = 3 - (depth + 1)" by simp_all
  obtain st1 where g: "get_amplify_logs env a s e st = (REDUCE_RANGE, st1)"
    using assms by (cases "get_amplify_logs env a s e st") (metis fst_conv)
  have c1: "length (filter is_fetch (trace st1)) = length (filter is_fetch (trace st)) + 1"
    using get_amplify_logs_state[of env a s e st] g by (auto simp: fetch_of_def)
  let ?h1 = "process_time_range env a s (mid_time s e) (depth + 1) dau st1"
  let ?h2 = "process_time_range env a (mid_time s e) e (depth + 1) dau
      (record_event (Sleep 1) (snd ?h1))"
  note ih1 = Suc.hyps(1)[OF d(2), of s "mid_time s e" st1]
  note ih2 = Suc.hyps(1)[OF d(2), of "mid_time s e" e "record_event (Sleep 1) (snd ?h1)"]
  have p: "process_time_range env a s e depth dau st =
      ((fst (fst ?h1) \<or> fst (fst ?h2), snd (fst ?h1) \<and> snd (fst ?h2)), snd ?h2)"
    using d(1) g
    by (simp add: process_time_range.simps[of env a s e depth] split_range_def
        split: prod.splits)
  have "length (filter is_fetch (trace (snd ?h1))) + 1
      = length (filter is_fetch (trace st1)) + 2 ^ n"
    using ih1 d(2) by simp
  moreover have "length (filter is_fetch (trace (snd ?h2))) + 1
      = length (filter is_fetch (trace (snd ?h1))) + 2 ^ n"
    using ih2 d(2) by (simp add: record_event_def)
  moreover have "(2::nat) ^ (3 - depth) = 2 * 2 ^ n"
    using Suc.hyps(2)[symmetric] by simp
  ultimately have "length (filter is_fetch (trace (snd ?h2))) + 1
      = length (filter is_fetch (trace st)) + 2 ^ (3 - depth)"
    using c1 by simp
  then show ?case using p ih1 ih2 by simp
qed

lemma process_time_range_always_reduce_example:
  "fst (process_time_range env_always_reduce example_app
          (mk_datetime 2024 1 1 0 0 0) (mk_datetime 2024 1 14 23 59 59) 0 False init_state)
     = (False, False)
   \<and> length (filter is_fetch (trace (snd (process_time_range env_always_reduce example_app
          (mk_datetime 2024 1 1 0 0 0) (mk_datetime 2024 1 14 23 59 59) 0 False init_state))))
     = 7"
proof -
  have "\<forall>s e st. fst (get_amplify_logs env_always_reduce example_app s e st) = REDUCE_RANGE"
    by (simp add: env_always_reduce_def scripted_env_def get_amplify_logs_def Let_def
        sublist_code)
  from process_time_range_always_reduce[OF this, of "mk_datetime 2024 1 1 0 0 0"
      "mk_datetime 2024 1 14 23 59 59" 0 False init_state]
  show ?thesis by (simp add: init_state_def)
qed

text \<open>
  C4 (the claim as stated fails).  When the fetch of a chunk fails with a connection
  error, the command-line downloader makes one attempt: \<^verbatim>\<open>process_time_range\<close> reports the
  range as failed after a single run of the command, without a delay and without a second
  run.
\<close>

theorem retry_counterexample:
  "process_time_range env_unreachable example_app
      (mk_datetime 2024 1 1 0 0 0) (mk_datetime 2024 1 14 23 59 59) 0 False init_state
   = ((False, False),
      \<lparr>self_stats = init_stats,
       trace = [fetch_of example_app
                  (mk_datetime 2024 1 1 0 0 0, mk_datetime 2024 1 14 23 59 59)]\<rparr>)"
  by (simp add: env_unreachable_def env_defs run_defs sublist_code)

text \<open>
  C4 (amended).  In the Lambda function, when the directory and the client can be set up
  and every attempt on a range ends in a transient failure, \<^verbatim>\<open>download_amplify_logs\<close>
  returns no file after exactly three API calls, all for that range, with delays of
  \<open>2 * 2 ^ 0\<close> and \<open>2 * 2 ^ 1\<close> seconds between them and no other delay (no split).  In
  the command-line downloader, when the fetch of a range returns \<^verbatim>\<open>None\<close>,
  \<^verbatim>\<open>process_time_range\<close> reports failure after that one fetch, without a delay or a split.
\<close>

theorem transient_failure_attempts:
  "(os_makedirs lenv tr (OutputDir temp_dir (lam_appName la) (s div us_per_day))
    \<and> boto3_client lenv
        (tr @ [MakeDirs (OutputDir temp_dir (lam_appName la) (s div us_per_day))])
        (lam_region la)
    \<and> (\<forall>tr'. transient_attempt lenv la s e tr')
    \<longrightarrow> (\<exists>new. download_amplify_logs lenv la s e temp_dir tr = Some ([], tr @ new)
           \<and> filter is_api_call new =
               replicate 3 (CallApi la (whole_seconds s) (whole_seconds e))
           \<and> filter is_wait new = [Wait (2 * 2 ^ 0), Wait (2 * 2 ^ 1)]))
   \<and> (fst (get_amplify_logs env a s e st) = PNone
    \<longrightarrow> (\<exists>new. process_time_range env a s e 0 dau st
                  = ((False, False), st\<lparr>trace := trace st @ new\<rparr>)
           \<and> filter is_fetch new = [fetch_of a (s, e)]
           \<and> filter is_sleep new = []))"
proof (intro conjI impI)
  let ?dir = "OutputDir temp_dir (lam_appName la) (s div us_per_day)"
  assume h: "os_makedirs lenv tr ?dir \<and> boto3_client lenv (tr @ [MakeDirs ?dir]) (lam_region la)
    \<and> (\<forall>tr'. transient_attempt lenv la s e tr')"
  let ?tr2 = "tr @ [MakeDirs ?dir, CreateClient (lam_region la)]"
  from h have tr: "\<forall>tr'. transient_attempt lenv la s e tr'" by blast
  from lambda_run_retry_loop_transient[OF tr, of 0 3 temp_dir 2 ?tr2]
  obtain new where new: "lambda_run lenv la temp_dir (RetryLoop s e 3 2 0) ?tr2
        = Some ([], ?tr2 @ new)"
    "filter is_api_call new = replicate 3 (CallApi la (whole_seconds s) (whole_seconds e))"
    "filter is_wait new = map (\<lambda>k. Wait (2 * 2 ^ k)) [0 ..< 3 - 1]"
    by auto
  let ?new = "[MakeDirs ?dir, CreateClient (lam_region la)] @ new"
  have "download_amplify_logs lenv la s e temp_dir tr = Some ([], tr @ ?new)"
    using h new(1) by (simp add: download_amplify_logs_def lambda_run_download)
  moreover have "filter is_api_call ?new =
      replicate 3 (CallApi la (whole_seconds s) (whole_seconds e))"
    using new(2) by simp
  moreover have "[0 ..< 3 - 1] = [0, Suc 0]" by (simp add: upt_rec)
  then have "filter is_wait ?new = [Wait (2 * 2 ^ 0), Wait (2 * 2 ^ 1)]"
    using new(3) by simp
  ultimately show "\<exists>new. download_amplify_logs lenv la s e temp_dir tr = Some ([], tr @ new)
           \<and> filter is_api_call new =
               replicate 3 (CallApi la (whole_seconds s) (whole_seconds e))
           \<and> filter is_wait new = [Wait (2 * 2 ^ 0), Wait (2 * 2 ^ 1)]"
    by blast
next
  assume n: "fst (get_amplify_logs env a s e st) = PNone"
  from get_amplify_logs_state[of env a s e st] obtain rest where
    r: "snd (get_amplify_logs env a s e st) = st\<lparr>trace := trace st @ fetch_of a (s, e) # rest\<rparr>"
    "filter is_fetch rest = []" "filter is_sleep rest = []"
    by blast
  have g: "get_amplify_logs env a s e st =
      (PNone, st\<lparr>trace := trace st @ fetch_of a (s, e) # rest\<rparr>)"
    using n r(1) by (simp add: prod_eq_iff)
  have "process_time_range env a s e 0 dau st
      = ((False, False), st\<lparr>trace := trace st @ (fetch_of a (s, e) # rest)\<rparr>)"
    using g by (simp add: process_time_range.simps[of env a s e 0] REDUCE_RANGE_def)
  moreover have "filter is_fetch (fetch_of a (s, e) # rest) = [fetch_of a (s, e)]"
    "filter is_sleep (fetch_of a (s, e) # rest) = []"
    using r(2,3) by (simp_all add: fetch_of_def)
  ultimately show "\<exists>new. process_time_range env a s e 0 dau st
                  = ((False, False), st\<lparr>trace := trace st @ new\<rparr>)
           \<and> filter is_fetch new = [fetch_of a (s, e)]
           \<and> filter is_sleep new = []"
    by blast
qed

text \<open>
  The Lambda function with an API that cannot be reached, and the command-line downloader
  with a command that cannot connect, on the first fourteen days of 2024.
\<close>

theorem transient_failure_attempts_witness:
  "(\<exists>new. download_amplify_logs lambda_env_unreachable example_lambda_app
             (mk_datetime 2024 1 1 0 0 0) (mk_datetime 2024 1 14 23 59 59) ''/tmp/logs'' []
           = Some ([], new)
        \<and> filter is_api_call new =
            replicate 3 (CallApi example_lambda_app
               (whole_seconds (mk_datetime 2024 1 1 0 0 0))
               (whole_seconds (mk_datetime 2024 1 14 23 59 59)))
        \<and> filter is_wait new = [Wait 2, Wait 4])
   \<and> (\<exists>new. process_time_range env_unreachable example_app
             (mk_datetime 2024 1 1 0 0 0) (mk_datetime 2024 1 14 23 59 59) 0 False init_state
           = ((False, False), init_state\<lparr>trace := new\<rparr>)
        \<and> filter is_fetch new =
            [fetch_of example_app (mk_datetime 2024 1 1 0 0 0, mk_datetime 2024 1 14 23 59 59)]
        \<and> filter is_sleep new = [])"
proof -
  let ?s = "mk_datetime 2024 1 1 0 0 0" and ?e = "mk_datetime 2024 1 14 23 59 59"
  have l: "os_makedirs lambda_env_unreachable []
        (OutputDir ''/tmp/logs'' (lam_appName example_lambda_app) (?s div us_per_day))
    \<and> boto3_client lambda_env_unreachable
        ([] @ [MakeDirs (OutputDir ''/tmp/logs'' (lam_appName example_lambda_app)
                 (?s div us_per_day))])
        (lam_region example_lambda_app)
    \<and> (\<forall>tr'. transient_attempt lambda_env_unreachable example_lambda_app ?s ?e tr')"
    by (simp add: lambda_env_unreachable_def transient_attempt_def)
  have c: "fst (get_amplify_logs env_unreachable example_app ?s ?e init_state) = PNone"
    by (simp add: env_unreachable_def env_defs run_defs sublist_code)
  from transient_failure_attempts[where lenv = lambda_env_unreachable and tr = "[]"
      and temp_dir = "''/tmp/logs''" and la = example_lambda_app and s = ?s and e = ?e
      and env = env_unreachable and a = example_app and st = init_state and dau = False] l c
  show ?thesis by (simp add: init_state_def)
qed

end
